theory Spec2Isabelle
  imports Main "HOL-Library.Word"
begin

section \<open>Pitched device arrays: \<open>GpuMat<T>\<close> of \<open>src/mvs/gpu_mat.h\<close>\<close>

text \<open>
  Machine types. \<open>size_t\<close> is a 64-bit unsigned integer, the fields of CUDA's \<open>dim3\<close>
  and the built-in thread indices are 32-bit \<open>unsigned int\<close>, a \<open>char\<close> is one byte.
  Device memory and host memory are byte stores indexed by addresses. An element of type
  \<open>T\<close> is its object representation: a list of \<open>sizeof(T)\<close> bytes; \<open>sizeof(T)\<close> is the
  parameter \<open>sz\<close> of everything below.
\<close>

type_synonym size_t = "64 word"
type_synonym uint = "32 word"
type_synonym byte = "8 word"
type_synonym address = nat
type_synonym memory = "address \<Rightarrow> byte"
type_synonym elem = "byte list"

record dim3 =
  dim_x :: uint
  dim_y :: uint
  dim_z :: uint

record GpuMat =
  array_ptr :: address
  pitch :: size_t
  width :: size_t
  height :: size_t
  depth :: size_t
  blockSize :: dim3
  gridSize :: dim3

datatype error =
    CudaError             \<comment> \<open>\<open>CUDA_SAFE_CALL\<close> on a failed runtime call\<close>
  | FileNotOpen           \<comment> \<open>\<open>CHECK(text_file.is_open())\<close>\<close>
  | UndefinedBehaviour    \<comment> \<open>an indeterminate local is read, or a host vector is overrun\<close>

text \<open>Reading and writing an object of \<open>n\<close> bytes at an address.\<close>

definition load :: "memory \<Rightarrow> address \<Rightarrow> nat \<Rightarrow> byte list" where
  "load mem a n = map (\<lambda>i. mem (a + i)) [0..<n]"

definition store :: "memory \<Rightarrow> address \<Rightarrow> byte list \<Rightarrow> memory" where
  "store mem a bs = (\<lambda>p. if a \<le> p \<and> p < a + length bs then bs ! (p - a) else mem p)"

subsection \<open>Construction\<close>

definition kBlockDimX :: size_t where "kBlockDimX = 32"
definition kBlockDimY :: size_t where "kBlockDimY = 16"

text \<open>
  \<open>ComputeCudaConfig\<close>: the right-hand sides are \<open>size_t\<close> expressions; the assignment to
  a field of \<open>dim3\<close> converts them to \<open>unsigned int\<close> (\<open>ucast\<close> keeps the low 32 bits).
\<close>

definition ComputeCudaConfig :: "GpuMat \<Rightarrow> GpuMat" where
  "ComputeCudaConfig m = m
     \<lparr> blockSize := \<lparr> dim_x = ucast kBlockDimX, dim_y = ucast kBlockDimY, dim_z = 1 \<rparr>,
       gridSize := \<lparr> dim_x = ucast ((width m - 1) div kBlockDimX + 1),
                     dim_y = ucast ((height m - 1) div kBlockDimY + 1),
                     dim_z = 1 \<rparr> \<rparr>"

text \<open>An object whose launch configuration is the one \<open>ComputeCudaConfig\<close> sets.\<close>

definition configured :: "GpuMat \<Rightarrow> bool" where
  "configured m \<longleftrightarrow> blockSize m = blockSize (ComputeCudaConfig m)
                    \<and> gridSize m = gridSize (ComputeCudaConfig m)"

text \<open>
  The constructor. \<open>cudaMallocPitch\<close> is the CUDA runtime's allocator, a parameter here:
  given the row length in bytes and the number of rows it returns the base address and the
  pitch, or fails (then \<open>CUDA_SAFE_CALL\<close> stops the program).
\<close>

type_synonym allocator = "size_t \<Rightarrow> size_t \<Rightarrow> (address \<times> size_t) option"

definition GpuMat_ctor :: "nat \<Rightarrow> allocator \<Rightarrow> size_t \<Rightarrow> size_t \<Rightarrow> size_t \<Rightarrow> error + GpuMat" where
  "GpuMat_ctor sz cudaMallocPitch w h d =
     (case cudaMallocPitch (w * of_nat sz) (h * d) of
        None \<Rightarrow> Inl CudaError
      | Some (p, pit) \<Rightarrow>
          Inr (ComputeCudaConfig
                 \<lparr> array_ptr = p, pitch = pit, width = w, height = h, depth = d,
                   blockSize = \<lparr> dim_x = 1, dim_y = 1, dim_z = 1 \<rparr>,
                   gridSize = \<lparr> dim_x = 1, dim_y = 1, dim_z = 1 \<rparr> \<rparr>))"

subsection \<open>Element access\<close>

text \<open>
  \<^verbatim>\<open>(T*)((char*)array_ptr_ + pitch_ * (slice * height_ + row)) + col\<close>:
  the byte offset of the row is computed in \<open>size_t\<close> (it wraps), the pointer
  arithmetic is on addresses. \<open>GetRef\<close> is a reference to the object at this address, the
  one \<open>Get\<close> reads and \<open>Set\<close> writes; \<open>Get(row, col)\<close> and \<open>Set(row, col, value)\<close> are
  the calls with slice 0.
\<close>

definition elem_addr :: "nat \<Rightarrow> GpuMat \<Rightarrow> size_t \<Rightarrow> size_t \<Rightarrow> size_t \<Rightarrow> address" where
  "elem_addr sz m row col sl =
     array_ptr m + unat (pitch m * (sl * height m + row)) + unat col * sz"

definition Get :: "nat \<Rightarrow> GpuMat \<Rightarrow> memory \<Rightarrow> size_t \<Rightarrow> size_t \<Rightarrow> size_t \<Rightarrow> elem" where
  "Get sz m mem row col sl = load mem (elem_addr sz m row col sl) sz"

definition Set :: "nat \<Rightarrow> GpuMat \<Rightarrow> size_t \<Rightarrow> size_t \<Rightarrow> size_t \<Rightarrow> elem \<Rightarrow> memory \<Rightarrow> memory" where
  "Set sz m row col sl v mem = store mem (elem_addr sz m row col sl) v"

text \<open>\<open>GetSlice\<close> and \<open>SetSlice\<close>: the loop over \<open>slice < depth_\<close>; \<open>values\<close> is the caller's array.\<close>

definition GetSlice :: "nat \<Rightarrow> GpuMat \<Rightarrow> memory \<Rightarrow> size_t \<Rightarrow> size_t \<Rightarrow> elem list" where
  "GetSlice sz m mem row col = map (\<lambda>k. Get sz m mem row col (of_nat k)) [0..<unat (depth m)]"


text \<open>
  What an allocated array satisfies: the rows fit into the pitch and the footprint
  \<open>pitch * height * depth\<close> is a number of addressable bytes.
\<close>

definition allocated :: "nat \<Rightarrow> GpuMat \<Rightarrow> bool" where
  "allocated sz m \<longleftrightarrow>
     unat (width m) * sz \<le> unat (pitch m) \<and>
     unat (pitch m) * unat (height m) * unat (depth m) < 2 ^ 64"

subsection \<open>Fill operations\<close>

text \<open>
  \<open>cudaMemset(devPtr, value, count)\<close> of the CUDA runtime: the first \<open>count\<close> bytes at
  \<open>devPtr\<close> become the low byte of the \<open>int\<close> \<open>value\<close>.
\<close>

definition cudaMemset :: "memory \<Rightarrow> address \<Rightarrow> int \<Rightarrow> nat \<Rightarrow> memory" where
  "cudaMemset mem p v n = store mem p (replicate n (of_int v))"

text \<open>\<open>FillWithScalar\<close>; the argument is the \<open>T\<close> value converted to \<open>int\<close> at the call.\<close>

definition FillWithScalar :: "nat \<Rightarrow> GpuMat \<Rightarrow> int \<Rightarrow> memory \<Rightarrow> memory" where
  "FillWithScalar sz m v mem =
     cudaMemset mem (array_ptr m) v (unat (width m * height m * depth m * of_nat sz))"

text \<open>
  A kernel launch \<open><<<gridSize_, blockSize_>>>\<close> runs the kernel body once for every block
  index below the grid size and every thread index below the block size (the \<open>z\<close>
  extents are 1). The threads write disjoint elements, so they are run one after the
  other. A thread is \<open>(blockIdx.y, threadIdx.y, blockIdx.x, threadIdx.x)\<close>.
\<close>

type_synonym thread = "uint \<times> uint \<times> uint \<times> uint"

definition below :: "uint \<Rightarrow> uint list" where
  "below n = map of_nat [0..<unat n]"

definition launch :: "dim3 \<Rightarrow> dim3 \<Rightarrow> thread list" where
  "launch grid block =
     concat (map (\<lambda>by. concat (map (\<lambda>ty. concat (map (\<lambda>bx. map (\<lambda>tx. (by, ty, bx, tx))
       (below (dim_x block))) (below (dim_x grid)))) (below (dim_y block)))) (below (dim_y grid)))"

text \<open>
  \<open>blockIdx.y * blockDim.y + threadIdx.y\<close> is \<open>unsigned int\<close> arithmetic, converted to
  \<open>size_t\<close> by the initialisation of \<open>row\<close>; the same for \<open>col\<close>.
\<close>

definition thread_row :: "dim3 \<Rightarrow> thread \<Rightarrow> size_t" where
  "thread_row blockDim t = (case t of (by, ty, bx, tx) \<Rightarrow> ucast (by * dim_y blockDim + ty))"

definition thread_col :: "dim3 \<Rightarrow> thread \<Rightarrow> size_t" where
  "thread_col blockDim t = (case t of (by, ty, bx, tx) \<Rightarrow> ucast (bx * dim_x blockDim + tx))"

text \<open>
  \<open>internal::FillWithVectorKernel\<close>, the body of one thread. \<open>values\<close> is the device copy
  of the caller's array, as bytes; \<open>values[slice]\<close> is its \<open>slice\<close>-th element.
\<close>

definition values_at :: "nat \<Rightarrow> byte list \<Rightarrow> nat \<Rightarrow> elem" where
  "values_at sz values k = take sz (drop (k * sz) values)"

definition FillWithVectorKernel ::
  "nat \<Rightarrow> byte list \<Rightarrow> GpuMat \<Rightarrow> dim3 \<Rightarrow> thread \<Rightarrow> memory \<Rightarrow> memory" where
  "FillWithVectorKernel sz values output blockDim t mem =
     (let row = thread_row blockDim t; col = thread_col blockDim t in
      if row < height output \<and> col < width output
      then fold (\<lambda>k. Set sz output row col (of_nat k) (values_at sz values k))
             [0..<unat (depth output)] mem
      else mem)"

text \<open>
  \<open>FillWithVector\<close>: \<open>cudaMemcpy\<close> copies \<open>depth_ * sizeof(T)\<close> bytes of the host array at
  \<open>values\<close> into a fresh device array, then the kernel is launched.
\<close>

definition FillWithVector :: "nat \<Rightarrow> GpuMat \<Rightarrow> memory \<Rightarrow> address \<Rightarrow> memory \<Rightarrow> memory" where
  "FillWithVector sz m hmem values mem =
     (let values_device = load hmem values (unat (depth m * of_nat sz)) in
      fold (FillWithVectorKernel sz values_device m (blockSize m))
        (launch (gridSize m) (blockSize m)) mem)"

text \<open>
  \<open>internal::FillWithRandomNumbersKernel\<close>. The generator \<open>curand_uniform\<close> of the CUDA
  library is a parameter: from a generator state it gives a number and the next state.
  \<open>scale u\<close> stands for the \<open>T\<close> value of \<open>u * (max_value - min_value) + min_value\<close>.
  \<open>ssz\<close> is \<open>sizeof(curandState)\<close>.
\<close>

fun draw :: "(elem \<Rightarrow> 'u \<times> elem) \<Rightarrow> ('u \<Rightarrow> elem) \<Rightarrow> nat \<Rightarrow> GpuMat \<Rightarrow> size_t \<Rightarrow> size_t
    \<Rightarrow> nat list \<Rightarrow> elem \<times> memory \<Rightarrow> elem \<times> memory" where
  "draw curand_uniform scale sz output row col [] (local_state, mem) = (local_state, mem)"
| "draw curand_uniform scale sz output row col (k # ks) (local_state, mem) =
     (case curand_uniform local_state of (u, next_state) \<Rightarrow>
        draw curand_uniform scale sz output row col ks
          (next_state, Set sz output row col (of_nat k) (scale u) mem))"

definition FillWithRandomNumbersKernel ::
  "(elem \<Rightarrow> 'u \<times> elem) \<Rightarrow> ('u \<Rightarrow> elem) \<Rightarrow> nat \<Rightarrow> nat \<Rightarrow> GpuMat \<Rightarrow> GpuMat \<Rightarrow> dim3 \<Rightarrow> thread
     \<Rightarrow> memory \<Rightarrow> memory" where
  "FillWithRandomNumbersKernel curand_uniform scale sz ssz output random_state blockDim t mem =
     (let row = thread_row blockDim t; col = thread_col blockDim t in
      if row < height output \<and> col < width output
      then (case draw curand_uniform scale sz output row col [0..<unat (depth output)]
                   (Get ssz random_state mem row col 0, mem) of
              (local_state, mem') \<Rightarrow> Set ssz random_state row col 0 local_state mem')
      else mem)"

definition FillWithRandomNumbers ::
  "(elem \<Rightarrow> 'u \<times> elem) \<Rightarrow> ('u \<Rightarrow> elem) \<Rightarrow> nat \<Rightarrow> nat \<Rightarrow> GpuMat \<Rightarrow> GpuMat \<Rightarrow> memory \<Rightarrow> memory" where
  "FillWithRandomNumbers curand_uniform scale sz ssz m random_state mem =
     fold (FillWithRandomNumbersKernel curand_uniform scale sz ssz m random_state (blockSize m))
       (launch (gridSize m) (blockSize m)) mem"

subsection \<open>Transfer\<close>

text \<open>
  \<open>cudaMemcpy2D(dst, dpitch, src, spitch, width, height, kind)\<close> of the CUDA runtime:
  \<open>height\<close> rows of \<open>width\<close> bytes, row \<open>k\<close> read at \<open>src + k * spitch\<close> and written at
  \<open>dst + k * dpitch\<close>; it fails when \<open>width\<close> exceeds one of the pitches. Source and
  destination are in different stores (host and device).
\<close>

definition cudaMemcpy2D ::
  "memory \<Rightarrow> address \<Rightarrow> nat \<Rightarrow> memory \<Rightarrow> address \<Rightarrow> nat \<Rightarrow> nat \<Rightarrow> nat \<Rightarrow> error + memory" where
  "cudaMemcpy2D dmem dst dpitch smem src spitch wbytes rows =
     (if dpitch < wbytes \<or> spitch < wbytes then Inl CudaError
      else Inr (fold (\<lambda>k mem. store mem (dst + k * dpitch) (load smem (src + k * spitch) wbytes))
                  [0..<rows] dmem))"

definition CopyToDevice ::
  "nat \<Rightarrow> GpuMat \<Rightarrow> memory \<Rightarrow> address \<Rightarrow> size_t \<Rightarrow> memory \<Rightarrow> error + memory" where
  "CopyToDevice sz m hmem data hpitch mem =
     cudaMemcpy2D mem (array_ptr m) (unat (pitch m)) hmem data (unat hpitch)
       (unat (width m * of_nat sz)) (unat (height m * depth m))"

definition CopyToHost ::
  "nat \<Rightarrow> GpuMat \<Rightarrow> memory \<Rightarrow> memory \<Rightarrow> address \<Rightarrow> size_t \<Rightarrow> error + memory" where
  "CopyToHost sz m mem hmem data hpitch =
     cudaMemcpy2D hmem data (unat hpitch) mem (array_ptr m) (unat (pitch m))
       (unat (width m * of_nat sz)) (unat (height m * depth m))"

subsection \<open>Transforms\<close>

text \<open>
  \<^verbatim>\<open>array_ptr_ + slice * pitch_ / sizeof(T) * GetHeight()\<close>: arithmetic on a \<open>T*\<close>, so
  the \<open>size_t\<close> offset counts elements of \<open>sz\<close> bytes.
\<close>

definition slice_ptr :: "nat \<Rightarrow> GpuMat \<Rightarrow> nat \<Rightarrow> address" where
  "slice_ptr sz m k = array_ptr m + unat (of_nat k * pitch m div of_nat sz * height m) * sz"

text \<open>
  The copy of one element inside device memory, and the three per-slice kernels.
  A kernel visits every \<open>(row, col)\<close> of the \<open>width \<times> height\<close> input slice.
\<close>

definition copy_elem :: "nat \<Rightarrow> address \<Rightarrow> address \<Rightarrow> memory \<Rightarrow> memory" where
  "copy_elem sz dst src mem = store mem dst (load mem src sz)"

definition pixels :: "nat \<Rightarrow> nat \<Rightarrow> (nat \<times> nat) list" where
  "pixels w h = concat (map (\<lambda>r. map (\<lambda>c. (r, c)) [0..<w]) [0..<h])"

text \<open>
  Modelled from the spec: \<open>CudaTranspose\<close> of \<open>mvs/cuda_transpose.h\<close> is not in the source
  given. The spec: the kernel accepts \<open>(sourcePtr, destPtr, width, height, sourcePitch,
  destPitch)\<close>, writes a full transformed slice, and
  \<open>output[c][r] == input[r][c]\<close> for all valid \<open>(r, c)\<close>.
\<close>

definition CudaTranspose ::
  "nat \<Rightarrow> address \<Rightarrow> address \<Rightarrow> size_t \<Rightarrow> size_t \<Rightarrow> size_t \<Rightarrow> size_t \<Rightarrow> memory \<Rightarrow> memory" where
  "CudaTranspose sz input output w h pitch_input pitch_output mem =
     fold (\<lambda>(r, c). copy_elem sz (output + c * unat pitch_output + r * sz)
                                  (input + r * unat pitch_input + c * sz))
       (pixels (unat w) (unat h)) mem"

text \<open>
  Modelled from the spec: \<open>CudaFlipHorizontal\<close> of \<open>mvs/cuda_flip.h\<close> is not in the source
  given. It flips the array along the vertical axis: column \<open>c\<close> of a row becomes column
  \<open>width - 1 - c\<close> of the same row.
\<close>

definition CudaFlipHorizontal ::
  "nat \<Rightarrow> address \<Rightarrow> address \<Rightarrow> size_t \<Rightarrow> size_t \<Rightarrow> size_t \<Rightarrow> size_t \<Rightarrow> memory \<Rightarrow> memory" where
  "CudaFlipHorizontal sz input output w h pitch_input pitch_output mem =
     fold (\<lambda>(r, c). copy_elem sz (output + r * unat pitch_output + (unat w - 1 - c) * sz)
                                  (input + r * unat pitch_input + c * sz))
       (pixels (unat w) (unat h)) mem"

text \<open>
  Modelled from the spec: \<open>CudaRotate\<close> of \<open>mvs/cuda_rotate.h\<close> is not in the source given.
  It rotates the array in counter-clockwise direction: the element at \<open>(r, c)\<close> of the
  \<open>width \<times> height\<close> input is the element at row \<open>width - 1 - c\<close> and column \<open>r\<close> of the
  \<open>height \<times> width\<close> output.
\<close>

definition CudaRotate ::
  "nat \<Rightarrow> address \<Rightarrow> address \<Rightarrow> size_t \<Rightarrow> size_t \<Rightarrow> size_t \<Rightarrow> size_t \<Rightarrow> memory \<Rightarrow> memory" where
  "CudaRotate sz input output w h pitch_input pitch_output mem =
     fold (\<lambda>(r, c). copy_elem sz (output + (unat w - 1 - c) * unat pitch_output + r * sz)
                                  (input + r * unat pitch_input + c * sz))
       (pixels (unat w) (unat h)) mem"

text \<open>The three dispatchers: one kernel call per slice \<open>slice < depth_\<close> of the source.\<close>

definition Transpose :: "nat \<Rightarrow> GpuMat \<Rightarrow> GpuMat \<Rightarrow> memory \<Rightarrow> memory" where
  "Transpose sz m output mem =
     fold (\<lambda>k. CudaTranspose sz (slice_ptr sz m k) (slice_ptr sz output k)
                 (width m) (height m) (pitch m) (pitch output))
       [0..<unat (depth m)] mem"

definition FlipHorizontal :: "nat \<Rightarrow> GpuMat \<Rightarrow> GpuMat \<Rightarrow> memory \<Rightarrow> memory" where
  "FlipHorizontal sz m output mem =
     fold (\<lambda>k. CudaFlipHorizontal sz (slice_ptr sz m k) (slice_ptr sz output k)
                 (width m) (height m) (pitch m) (pitch output))
       [0..<unat (depth m)] mem"

definition Rotate :: "nat \<Rightarrow> GpuMat \<Rightarrow> GpuMat \<Rightarrow> memory \<Rightarrow> memory" where
  "Rotate sz m output mem =
     fold (\<lambda>k. CudaRotate sz (slice_ptr sz m k) (slice_ptr sz output k)
                 (width m) (height m) (pitch m) (pitch output))
       [0..<unat (depth m)] mem"

text \<open>
  Two arrays do not alias when their footprints of \<open>pitch * height * depth\<close> bytes are
  disjoint ranges of addresses.
\<close>

definition footprint :: "GpuMat \<Rightarrow> nat" where
  "footprint m = unat (pitch m) * unat (height m) * unat (depth m)"

definition separate :: "GpuMat \<Rightarrow> GpuMat \<Rightarrow> bool" where
  "separate a b \<longleftrightarrow>
     array_ptr a + footprint a \<le> array_ptr b \<or> array_ptr b + footprint b \<le> array_ptr a"

text \<open>
  The bytes of one pixel of an array and of its generator state: the \<open>depth\<close> elements at
  \<open>(row, col)\<close>, and the element of the state buffer at \<open>(row, col)\<close>.
\<close>

definition pixel_bytes :: "nat \<Rightarrow> nat \<Rightarrow> GpuMat \<Rightarrow> GpuMat \<Rightarrow> size_t \<Rightarrow> size_t \<Rightarrow> address set" where
  "pixel_bytes sz ssz m random_state row col =
     {p. \<exists>k < unat (depth m). elem_addr sz m row col (of_nat k) \<le> p
                                \<and> p < elem_addr sz m row col (of_nat k) + sz}
     \<union> {p. elem_addr ssz random_state row col 0 \<le> p
            \<and> p < elem_addr ssz random_state row col 0 + ssz}"

subsection \<open>Files and streams\<close>

text \<open>
  A file system maps a path to the bytes of the file. Opening a file for writing succeeds;
  \<open>std::ios_base::out\<close> alone creates or truncates the file, with \<open>std::ios_base::app\<close>
  every write goes to the end of what the file holds.
\<close>

type_synonym filesystem = "string \<Rightarrow> byte list option"

definition open_out :: "filesystem \<Rightarrow> string \<Rightarrow> filesystem" where
  "open_out fs file_name = fs(file_name \<mapsto> [])"

definition write_bytes :: "filesystem \<Rightarrow> string \<Rightarrow> byte list \<Rightarrow> filesystem" where
  "write_bytes fs file_name bs =
     fs(file_name \<mapsto> (case fs file_name of None \<Rightarrow> [] | Some old \<Rightarrow> old) @ bs)"

definition open_app :: "filesystem \<Rightarrow> string \<Rightarrow> filesystem" where
  "open_app fs file_name =
     fs(file_name \<mapsto> (case fs file_name of None \<Rightarrow> [] | Some old \<Rightarrow> old))"

text \<open>\<open>operator<<\<close> for an unsigned integer: its decimal digits, as ASCII bytes.\<close>

fun dec_digits :: "nat \<Rightarrow> byte list" where
  "dec_digits n =
     (if n < 10 then [of_nat (48 + n)] else dec_digits (n div 10) @ [of_nat (48 + n mod 10)])"

definition ampersand :: byte where "ampersand = 38"

definition header :: "nat \<Rightarrow> nat \<Rightarrow> nat \<Rightarrow> byte list" where
  "header w h d =
     dec_digits w @ [ampersand] @ dec_digits h @ [ampersand] @ dec_digits d @ [ampersand]"

text \<open>
  An input stream: the bytes of the file, the read position, \<open>failbit\<close> and \<open>eofbit\<close>.
\<close>

record istream =
  contents :: "byte list"
  gpos :: nat
  failbit :: bool
  eofbit :: bool

definition open_in :: "byte list \<Rightarrow> istream" where
  "open_in bs = \<lparr> contents = bs, gpos = 0, failbit = False, eofbit = False \<rparr>"

definition is_space :: "byte \<Rightarrow> bool" where
  "is_space b \<longleftrightarrow> b = 32 \<or> (9 \<le> b \<and> b \<le> 13)"

definition is_digit :: "byte \<Rightarrow> bool" where
  "is_digit b \<longleftrightarrow> 48 \<le> b \<and> b \<le> 57"

text \<open>
  The sentry of a formatted extraction: a stream that is not good fails; otherwise white
  space is skipped, and reaching the end of the file there sets both bits.
\<close>

definition sentry :: "istream \<Rightarrow> istream" where
  "sentry s =
     (if failbit s \<or> eofbit s then s\<lparr> failbit := True \<rparr>
      else let rest = drop (gpos s) (contents s);
               n = length (takeWhile is_space rest)
           in if n = length rest then s\<lparr> gpos := gpos s + n, failbit := True, eofbit := True \<rparr>
              else s\<lparr> gpos := gpos s + n \<rparr>)"

text \<open>
  \<open>operator>>\<close> for a \<open>char\<close>. The result is \<open>None\<close> when nothing is extracted: the
  variable keeps what it held, and the locals of \<open>Read\<close> are not initialised.
\<close>

definition extract_char :: "istream \<Rightarrow> byte option \<times> istream" where
  "extract_char s =
     (let s1 = sentry s in
      if failbit s1 then (None, s1)
      else (Some (contents s1 ! gpos s1), s1\<lparr> gpos := gpos s1 + 1 \<rparr>))"

text \<open>
  \<open>operator>>\<close> for a \<open>size_t\<close>: an optional sign, then decimal digits. Without a digit
  the value 0 is stored and the extraction fails; a value that does not fit is stored as
  the largest \<open>size_t\<close> and the extraction fails; a minus sign negates in \<open>size_t\<close>.
  Reading the digits up to the end of the file sets \<open>eofbit\<close>.
\<close>

definition digits_value :: "byte list \<Rightarrow> nat" where
  "digits_value ds = fold (\<lambda>b acc. acc * 10 + (unat b - 48)) ds 0"

definition extract_size_t :: "istream \<Rightarrow> size_t option \<times> istream" where
  "extract_size_t s =
     (let s1 = sentry s in
      if failbit s1 then (None, s1)
      else let rest = drop (gpos s1) (contents s1);
               signed = (hd rest = 43 \<or> hd rest = 45);
               negative = (hd rest = 45);
               body = (if signed then tl rest else rest);
               ds = takeWhile is_digit body;
               used = (if signed then 1 else 0) + length ds;
               s2 = s1\<lparr> gpos := gpos s1 + used, eofbit := (used = length rest) \<rparr>
           in if ds = [] then (Some 0, s2\<lparr> failbit := True \<rparr>)
              else if 2 ^ 64 \<le> digits_value ds then (Some (- 1), s2\<lparr> failbit := True \<rparr>)
              else (Some (if negative then - of_nat (digits_value ds) else of_nat (digits_value ds)),
                    s2))"

text \<open>\<open>tellg\<close>: \<open>None\<close> is the position \<open>-1\<close> of a stream that has failed.\<close>

definition tellg :: "istream \<Rightarrow> nat option" where
  "tellg s = (if failbit s \<or> eofbit s then None else Some (gpos s))"

definition seekg :: "istream \<Rightarrow> nat option \<Rightarrow> istream" where
  "seekg s pos = (case pos of None \<Rightarrow> s\<lparr> failbit := True \<rparr> | Some p \<Rightarrow> s\<lparr> gpos := p \<rparr>)"

text \<open>
  \<open>std::streamsize\<close>, the type of the count of \<open>read\<close>, is a signed integer of 64 bits,
  here the integer it denotes: a \<open>size_t\<close> argument is converted to it (\<open>sint\<close> reads the
  64 bits in two's complement), and a value of \<open>2 ^ 63\<close> or more becomes negative.
\<close>

type_synonym streamsize = int

definition to_streamsize :: "size_t \<Rightarrow> streamsize" where
  "to_streamsize n = sint n"

text \<open>
  \<open>read(buffer, n)\<close>: the bytes extracted, at most \<open>n\<close> and at most what the file has left.
  The stream buffer extracts while fewer than \<open>n\<close> bytes are stored, so for a count that is
  not positive nothing is extracted.
\<close>

definition istream_read :: "istream \<Rightarrow> streamsize \<Rightarrow> byte list" where
  "istream_read s n =
     (if failbit s \<or> eofbit s \<or> n \<le> 0 then [] else take (nat n) (drop (gpos s) (contents s)))"

subsection \<open>Serialization\<close>

text \<open>
  The header of \<open>Read\<close>: the three dimensions and the position after the six extractions.
\<close>

definition parse_header ::
  "byte list \<Rightarrow> size_t option \<times> size_t option \<times> size_t option \<times> nat option" where
  "parse_header bs =
     (case extract_size_t (open_in bs) of (w, s1) \<Rightarrow>
      case extract_char s1 of (c1, s2) \<Rightarrow>
      case extract_size_t s2 of (h, s3) \<Rightarrow>
      case extract_char s3 of (c2, s4) \<Rightarrow>
      case extract_size_t s4 of (d, s5) \<Rightarrow>
      case extract_char s5 of (c3, s6) \<Rightarrow> (w, h, d, tellg s6))"

text \<open>
  The bytes that \<open>binary_file.read\<close> extracts in \<open>Read\<close>: the count is the product of the
  \<open>width\<close>, \<open>height\<close> and \<open>depth\<close> parsed from the header and \<open>sizeof(T)\<close>, a \<open>size_t\<close>
  that the call converts to \<open>std::streamsize\<close>.
\<close>

definition Read_payload :: "nat \<Rightarrow> byte list \<Rightarrow> error + byte list" where
  "Read_payload sz bs =
     (case parse_header bs of
        (Some w, Some h, Some d, pos) \<Rightarrow>
          Inr (istream_read (seekg (open_in bs) pos) (to_streamsize (w * h * d * of_nat sz)))
      | _ \<Rightarrow> Inl UndefinedBehaviour)"

text \<open>
  A \<open>std::vector<T>\<close> local to a function is a host store of its own at address 0,
  value-initialised.
\<close>

definition vector_store :: memory where
  "vector_store = (\<lambda>p. 0)"

text \<open>
  A vector of \<open>n\<close> elements is overrun by \<open>rows\<close> rows of \<open>wbytes\<close> bytes, or by
  \<open>count\<close> bytes, that it cannot hold.
\<close>

definition overrun :: "nat \<Rightarrow> size_t \<Rightarrow> nat \<Rightarrow> bool" where
  "overrun sz n count \<longleftrightarrow> unat n * sz < count"

text \<open>
  \<open>Read\<close>. The vector \<open>source\<close> has \<open>width_ * height_ * depth_\<close> elements; the file is read
  into it and \<open>CopyToDevice\<close> reads \<open>height_ * depth_\<close> rows of \<open>width_ * sizeof(T)\<close>
  bytes from it.
\<close>

definition Read :: "nat \<Rightarrow> GpuMat \<Rightarrow> string \<Rightarrow> filesystem \<Rightarrow> memory \<Rightarrow> error + memory" where
  "Read sz m file_name fs mem =
     (case fs file_name of
        None \<Rightarrow> Inl FileNotOpen
      | Some bs \<Rightarrow>
         (case Read_payload sz bs of
            Inl e \<Rightarrow> Inl e
          | Inr payload \<Rightarrow>
              if overrun sz (width m * height m * depth m) (length payload) \<or>
                 overrun sz (width m * height m * depth m)
                   (unat (width m * of_nat sz) * unat (height m * depth m))
              then Inl UndefinedBehaviour
              else CopyToDevice sz m (store vector_store 0 payload) 0 (width m * of_nat sz) mem))"

text \<open>\<open>Write(file_name)\<close>: the whole array.\<close>

definition Write :: "nat \<Rightarrow> GpuMat \<Rightarrow> string \<Rightarrow> filesystem \<Rightarrow> memory \<Rightarrow> error + filesystem" where
  "Write sz m file_name fs mem =
     (if overrun sz (width m * height m * depth m)
           (unat (width m * of_nat sz) * unat (height m * depth m))
      then Inl UndefinedBehaviour
      else case CopyToHost sz m mem vector_store 0 (width m * of_nat sz) of
        Inl e \<Rightarrow> Inl e
      | Inr dest \<Rightarrow>
          let fs1 = write_bytes (open_out fs file_name) file_name
                      (header (unat (width m)) (unat (height m)) (unat (depth m)))
          in Inr (write_bytes (open_app fs1 file_name) file_name
                    (load dest 0 (unat (of_nat sz * width m * height m * depth m)))))"

text \<open>
  \<open>Write(file_name, slice)\<close>: one slice, read at the \<open>T*\<close>
  \<^verbatim>\<open>array_ptr_ + slice * height_ * pitch_ / sizeof(T)\<close>, with depth 1 in the header.
\<close>

definition Write_slice ::
  "nat \<Rightarrow> GpuMat \<Rightarrow> string \<Rightarrow> size_t \<Rightarrow> filesystem \<Rightarrow> memory \<Rightarrow> error + filesystem" where
  "Write_slice sz m file_name sl fs mem =
     (if overrun sz (width m * height m) (unat (width m * of_nat sz) * unat (height m))
      then Inl UndefinedBehaviour
      else case cudaMemcpy2D vector_store 0 (unat (width m * of_nat sz))
             mem (array_ptr m + unat (sl * height m * pitch m div of_nat sz) * sz) (unat (pitch m))
             (unat (width m * of_nat sz)) (unat (height m)) of
        Inl e \<Rightarrow> Inl e
      | Inr dest \<Rightarrow>
          let fs1 = write_bytes (open_out fs file_name) file_name
                      (header (unat (width m)) (unat (height m)) 1)
          in Inr (write_bytes (open_app fs1 file_name) file_name
                    (load dest 0 (unat (of_nat sz * width m * height m)))))"

subsection \<open>The methods as steps of a state\<close>





section \<open>Memory\<close>

lemma length_load: "length (load mem a n) = n"
  by (simp add: load_def)

lemma load_store_same: "load (store mem a bs) a (length bs) = bs"
  by (rule nth_equalityI) (simp_all add: load_def store_def)

lemma load_store_disjoint:
  "a + n \<le> b \<or> b + length bs \<le> a \<Longrightarrow> load (store mem b bs) a n = load mem a n"
  by (auto simp: load_def store_def)

lemma load_cong:
  "(\<And>i. i < n \<Longrightarrow> mem (a + i) = mem' (b + i)) \<Longrightarrow> load mem a n = load mem' b n"
  by (simp add: load_def)

section \<open>Addresses of elements\<close>

lemma unat_row_offset:
  fixes p h d s r :: size_t
  assumes fit: "unat p * unat h * unat d < 2 ^ 64"
      and s: "s < d" and r: "r < h"
  shows "unat (p * (s * h + r)) = unat p * (unat s * unat h + unat r)"
proof (cases "p = 0")
  case True
  then show ?thesis by simp
next
  case False
  then have p1: "1 \<le> unat p" by (simp add: unat_gt_0 Suc_leI)
  have s': "unat s < unat d" and r': "unat r < unat h"
    using s r by (simp_all add: word_less_nat_alt)
  have "unat s * unat h + unat r < (unat s + 1) * unat h" using r' by simp
  also have "\<dots> \<le> unat d * unat h" using s' by (intro mult_le_mono1) simp
  finally have lt: "unat s * unat h + unat r < unat h * unat d" by (simp add: mult.commute)
  have lt2: "unat p * (unat s * unat h + unat r) < unat p * (unat h * unat d)"
    using lt p1 by simp
  have "unat p * (unat h * unat d) < 2 ^ 64"
    using fit by (simp add: mult.assoc)
  with lt2 have b: "unat p * (unat s * unat h + unat r) < 2 ^ 64"
    by (rule less_trans)
  have "unat s * unat h + unat r \<le> unat p * (unat s * unat h + unat r)"
    using p1 by (metis mult_le_mono1 nat_mult_1)
  with b have b2: "unat s * unat h + unat r < 2 ^ 64" by (rule le_less_trans [rotated])
  then have b3: "unat s * unat h < 2 ^ 64" by simp
  have e1: "unat (s * h) = unat s * unat h"
    using b3 by (simp add: unat_mult_lem [THEN iffD1])
  have e2: "unat (s * h + r) = unat s * unat h + unat r"
    using b2 e1 by (simp add: unat_add_lem [THEN iffD1])
  show ?thesis using b e2 by (simp add: unat_mult_lem [THEN iffD1])
qed

lemma pitched_disjoint:
  fixes P W sz k k' c c' :: nat
  assumes wp: "W * sz \<le> P" and c: "c < W" and c': "c' < W" and ne: "k \<noteq> k' \<or> c \<noteq> c'"
  shows "P * k + c * sz + sz \<le> P * k' + c' * sz \<or> P * k' + c' * sz + sz \<le> P * k + c * sz"
proof -
  have step: "P * a + b * sz + sz \<le> P * a' + b' * sz"
    if "a < a'" "b < W" for a a' b b'
  proof -
    have "b * sz + sz = (b + 1) * sz" by simp
    also have "\<dots> \<le> W * sz" using that by (intro mult_le_mono1) simp
    finally have "P * a + b * sz + sz \<le> P * a + P" using wp by simp
    also have "\<dots> = P * (a + 1)" by simp
    also have "\<dots> \<le> P * a'" using that by (intro mult_le_mono2) simp
    finally show ?thesis by simp
  qed
  have same: "P * a + b * sz + sz \<le> P * a + b' * sz" if "b < b'" for a b b'
  proof -
    have "b * sz + sz = (b + 1) * sz" by simp
    also have "\<dots> \<le> b' * sz" using that by (intro mult_le_mono1) simp
    finally show ?thesis by simp
  qed
  consider "k < k'" | "k' < k" | "k = k'" "c < c'" | "k = k'" "c' < c"
    using ne by force
  then show ?thesis
  proof cases
    case 1 then show ?thesis using step [OF _ c] by blast
  next
    case 2 then show ?thesis using step [OF _ c'] by blast
  next
    case 3 then show ?thesis using same by blast
  next
    case 4 then show ?thesis using same by blast
  qed
qed

lemma row_index_inj:
  fixes H s r s' r' :: nat
  assumes "r < H" "r' < H" "s * H + r = s' * H + r'"
  shows "s = s' \<and> r = r'"
proof -
  have "(s * H + r) div H = (s' * H + r') div H" "(s * H + r) mod H = (s' * H + r') mod H"
    using assms(3) by simp_all
  then show ?thesis using assms(1,2) by simp
qed

lemma elem_addr_nat:
  assumes "allocated sz m" "row < height m" "sl < depth m"
  shows "elem_addr sz m row col sl =
    array_ptr m + unat (pitch m) * (unat sl * unat (height m) + unat row) + unat col * sz"
proof -
  have "unat (pitch m * (sl * height m + row)) =
        unat (pitch m) * (unat sl * unat (height m) + unat row)"
    using assms unfolding allocated_def by (intro unat_row_offset [where d = "depth m"]) simp_all
  then show ?thesis by (simp add: elem_addr_def)
qed

lemma elem_disjoint:
  assumes al: "allocated sz m"
    and v: "row < height m" "col < width m" "sl < depth m"
    and v': "row' < height m" "col' < width m" "sl' < depth m"
    and ne: "(row', col', sl') \<noteq> (row, col, sl)"
  shows "elem_addr sz m row' col' sl' + sz \<le> elem_addr sz m row col sl \<or>
         elem_addr sz m row col sl + sz \<le> elem_addr sz m row' col' sl'"
proof -
  let ?k = "unat sl * unat (height m) + unat row"
  let ?k' = "unat sl' * unat (height m) + unat row'"
  have r: "unat row < unat (height m)" "unat row' < unat (height m)"
    and c: "unat col < unat (width m)" "unat col' < unat (width m)"
    using v v' by (simp_all add: word_less_nat_alt)
  have "?k' \<noteq> ?k \<or> unat col' \<noteq> unat col"
  proof (rule ccontr)
    assume "\<not> ?thesis"
    then have k: "?k' = ?k" and cc: "unat col' = unat col" by simp_all
    from row_index_inj [OF r(2) r(1) k] cc have "sl' = sl" "row' = row" "col' = col"
      by (simp_all add: word_unat_eq_iff)
    with ne show False by simp
  qed
  from pitched_disjoint [OF _ c(2) c(1) this, of sz "unat (pitch m)"] al
  show ?thesis
    by (simp add: elem_addr_nat [OF al] v v' allocated_def add.assoc)
qed

lemma unat_mult_of_nat:
  fixes w :: size_t
  assumes "unat w * sz < 2 ^ 64"
  shows "unat (w * of_nat sz) = unat w * sz"
proof (cases "unat w = 0")
  case True
  then have "w = 0" by (simp add: unat_eq_0)
  then show ?thesis by simp
next
  case False
  then have "sz \<le> unat w * sz" by simp
  then have "sz < 2 ^ 64" using assms by (rule le_less_trans)
  then have s: "unat (of_nat sz :: size_t) = sz" by (simp add: unat_of_nat)
  have "unat w * unat (of_nat sz :: size_t) < 2 ^ LENGTH(64)" using assms s by simp
  then have "unat (w * of_nat sz) = unat w * unat (of_nat sz :: size_t)"
    by (rule unat_mult_lem [THEN iffD1])
  then show ?thesis using s by simp
qed

section \<open>Sequences of stores\<close>

lemma fold_store_outside:
  assumes "\<And>t. t \<in> set ts \<Longrightarrow> p < dst t \<or> dst t + length (val t) \<le> p"
  shows "fold (\<lambda>t mem. store mem (dst t) (val t)) ts mem p = mem p"
  using assms
proof (induction ts arbitrary: mem)
  case Nil
  then show ?case by simp
next
  case (Cons t ts)
  have "fold (\<lambda>t mem. store mem (dst t) (val t)) ts (store mem (dst t) (val t)) p
        = store mem (dst t) (val t) p"
    by (rule Cons.IH) (simp add: Cons.prems)
  also have "\<dots> = mem p" using Cons.prems [of t] by (auto simp: store_def)
  finally show ?case by simp
qed

lemma fold_store_inside:
  assumes "t0 \<in> set ts" and "i < length (val t0)"
    and "\<And>t. t \<in> set ts \<Longrightarrow>
           (dst t = dst t0 \<and> val t = val t0)
           \<or> dst t + length (val t) \<le> dst t0 \<or> dst t0 + length (val t0) \<le> dst t"
  shows "fold (\<lambda>t mem. store mem (dst t) (val t)) ts mem (dst t0 + i) = val t0 ! i"
  using assms
proof (induction ts rule: rev_induct)
  case Nil
  then show ?case by simp
next
  case (snoc t ts)
  show ?case
  proof (cases "dst t = dst t0 \<and> val t = val t0")
    case True
    then show ?thesis using snoc.prems(2) by (simp add: store_def)
  next
    case False
    then have d: "dst t + length (val t) \<le> dst t0 \<or> dst t0 + length (val t0) \<le> dst t"
      using snoc.prems(3) [of t] by auto
    from False snoc.prems(1) have "t0 \<in> set ts" by auto
    then have "fold (\<lambda>t mem. store mem (dst t) (val t)) ts mem (dst t0 + i) = val t0 ! i"
      using snoc.prems(2,3) by (intro snoc.IH) auto
    then show ?thesis using d snoc.prems(2) by (auto simp: store_def)
  qed
qed

lemma fold_copy_elem:
  assumes "\<And>t t'. t \<in> set ts \<Longrightarrow> t' \<in> set ts \<Longrightarrow> src t + n \<le> dst t' \<or> dst t' + n \<le> src t"
    and "\<And>t. t \<in> set ts \<Longrightarrow> load cur (src t) n = load mem (src t) n"
  shows "fold (\<lambda>t. copy_elem n (dst t) (src t)) ts cur
       = fold (\<lambda>t m. store m (dst t) (load mem (src t) n)) ts cur"
  using assms
proof (induction ts arbitrary: cur)
  case Nil
  then show ?case by simp
next
  case (Cons t ts)
  let ?cur = "store cur (dst t) (load mem (src t) n)"
  have c: "copy_elem n (dst t) (src t) cur = ?cur"
    using Cons.prems(2) [of t] by (simp add: copy_elem_def)
  have "load ?cur (src t') n = load mem (src t') n" if "t' \<in> set ts" for t'
  proof -
    have "src t' + n \<le> dst t \<or> dst t + n \<le> src t'"
      using Cons.prems(1) [of t' t] that by simp
    then have "load ?cur (src t') n = load cur (src t') n"
      by (intro load_store_disjoint) (simp add: length_load)
    then show ?thesis using Cons.prems(2) [of t'] that by simp
  qed
  then have "fold (\<lambda>t. copy_elem n (dst t) (src t)) ts ?cur
       = fold (\<lambda>t m. store m (dst t) (load mem (src t) n)) ts ?cur"
    using Cons.prems(1) by (intro Cons.IH) auto
  then show ?case using c by simp
qed

lemma fold_product:
  "fold (\<lambda>k. fold (g k) xs) ks = fold (\<lambda>(k, x). g k x) (List.product ks xs)"
proof (induction ks)
  case Nil
  then show ?case by simp
next
  case (Cons k ks)
  have "fold (\<lambda>(k, x). g k x) (map (Pair k) xs) = fold (g k) xs"
    by (simp add: fold_map comp_def)
  then show ?case using Cons by (simp add: comp_def)
qed

lemma fold_filter_if:
  "fold (\<lambda>t mem. if P t then f t mem else mem) ts = fold f (filter P ts)"
  by (induction ts) (auto simp: fun_eq_iff)

lemma fold_store_load:
  assumes "t0 \<in> set ts" and "length (val t0) = n"
    and "\<And>t. t \<in> set ts \<Longrightarrow>
           (dst t = dst t0 \<and> val t = val t0)
           \<or> dst t + length (val t) \<le> dst t0 \<or> dst t0 + length (val t0) \<le> dst t"
  shows "load (fold (\<lambda>t mem. store mem (dst t) (val t)) ts mem) (dst t0) n = val t0"
proof (rule nth_equalityI)
  show "length (load (fold (\<lambda>t mem. store mem (dst t) (val t)) ts mem) (dst t0) n) = length (val t0)"
    using assms(2) by (simp add: length_load)
next
  fix i
  assume "i < length (load (fold (\<lambda>t mem. store mem (dst t) (val t)) ts mem) (dst t0) n)"
  then have i: "i < n" by (simp add: length_load)
  then have "fold (\<lambda>t mem. store mem (dst t) (val t)) ts mem (dst t0 + i) = val t0 ! i"
    using assms by (intro fold_store_inside) auto
  then show "load (fold (\<lambda>t mem. store mem (dst t) (val t)) ts mem) (dst t0) n ! i = val t0 ! i"
    using i by (simp add: load_def)
qed

lemma drop_load: "drop j (load mem a n) = load mem (a + j) (n - j)"
proof (rule nth_equalityI)
  show "length (drop j (load mem a n)) = length (load mem (a + j) (n - j))"
    by (simp add: load_def)
next
  fix i
  assume "i < length (drop j (load mem a n))"
  then have "j + i < n" "i < n - j" by (simp_all add: load_def)
  then show "drop j (load mem a n) ! i = load mem (a + j) (n - j) ! i"
    by (simp add: load_def add.assoc)
qed

lemma take_load: "j \<le> n \<Longrightarrow> take j (load mem a n) = load mem a j"
  by (rule nth_equalityI) (simp_all add: load_def)

lemma values_at_load:
  assumes "(k + 1) * sz \<le> n"
  shows "values_at sz (load hmem values n) k = load hmem (values + k * sz) sz"
proof -
  have "sz \<le> n - k * sz" using assms by simp
  then show ?thesis by (simp add: values_at_def drop_load take_load)
qed

section \<open>The launch grid\<close>

lemma unat_minus_1_size_t: "unat (- 1 :: size_t) = 2 ^ 64 - 1"
  by (simp add: unsigned_minus_1_eq_mask mask_eq_exp_minus_1)

lemma unat_ucast_uint: "unat (ucast (v :: size_t) :: uint) = unat v mod 2 ^ 32"
  by (simp add: unsigned_ucast_eq take_bit_eq_mod)

lemma blocks_nonzero:
  fixes w b :: size_t
  assumes "w \<noteq> 0" and b: "unat b = n" "0 < n"
  shows "unat ((w - 1) div b + 1) = (unat w - 1) div n + 1"
proof -
  have w1: "1 \<le> unat w" using assms by (simp add: unat_gt_0 Suc_leI)
  have "unat (w - 1) = unat w - 1" using assms by (simp add: unat_minus_one)
  then have d: "unat ((w - 1) div b) = (unat w - 1) div n" by (simp add: unat_div b)
  have "unat w < 2 ^ 64" using unsigned_less [of w] by simp
  moreover have "(unat w - 1) div n \<le> unat w - 1" by (rule div_le_dividend)
  ultimately have "(unat w - 1) div n + 1 < 2 ^ 64" using w1 by linarith
  then show "unat ((w - 1) div b + 1) = (unat w - 1) div n + 1"
    using d by (simp add: unat_add_lem [THEN iffD1])
qed

lemma blocks_zero:
  fixes b :: size_t
  assumes b: "unat b = n" and q: "(2 ^ 64 - 1 :: nat) div n = q" "q + 1 < 2 ^ 64"
  shows "unat ((0 - 1 :: size_t) div b + 1) = q + 1"
proof -
  have d: "unat ((- 1 :: size_t) div b) = q"
    by (simp only: unat_div unat_minus_1_size_t b q)
  have "unat ((- 1 :: size_t) div b) + unat (1 :: size_t) < 2 ^ LENGTH(64)"
    unfolding d using q(2) by simp
  then have "unat ((- 1 :: size_t) div b + 1) = unat ((- 1 :: size_t) div b) + unat (1 :: size_t)"
    by (rule unat_add_lem [THEN iffD1])
  then show ?thesis unfolding d by simp
qed

lemma grid_extent_x:
  "unat (ucast ((w - 1) div kBlockDimX + 1) :: uint) = ((unat w + 31) div 32) mod 2 ^ 32"
proof (cases "w = 0")
  case True
  have "unat ((0 - 1 :: size_t) div kBlockDimX + 1) = 576460752303423487 + 1"
    by (rule blocks_zero [where n = 32]) (simp_all add: kBlockDimX_def)
  then show ?thesis using True by (simp add: unat_ucast_uint)
next
  case False
  have "unat ((w - 1) div kBlockDimX + 1) = (unat w - 1) div 32 + 1"
    by (rule blocks_nonzero [OF False]) (simp_all add: kBlockDimX_def)
  moreover have "1 \<le> unat w" using False by (simp add: unat_gt_0 Suc_leI)
  then have "(unat w - 1) div 32 + 1 = (unat w + 31) div 32" by arith
  ultimately show ?thesis by (simp add: unat_ucast_uint)
qed

lemma grid_extent_y:
  "unat (ucast ((h - 1) div kBlockDimY + 1) :: uint) = ((unat h + 15) div 16) mod 2 ^ 32"
proof (cases "h = 0")
  case True
  have "unat ((0 - 1 :: size_t) div kBlockDimY + 1) = 1152921504606846975 + 1"
    by (rule blocks_zero [where n = 16]) (simp_all add: kBlockDimY_def)
  then show ?thesis using True by (simp add: unat_ucast_uint)
next
  case False
  have "unat ((h - 1) div kBlockDimY + 1) = (unat h - 1) div 16 + 1"
    by (rule blocks_nonzero [OF False]) (simp_all add: kBlockDimY_def)
  moreover have "1 \<le> unat h" using False by (simp add: unat_gt_0 Suc_leI)
  then have "(unat h - 1) div 16 + 1 = (unat h + 15) div 16" by arith
  ultimately show ?thesis by (simp add: unat_ucast_uint)
qed

section \<open>Threads of a launch\<close>

lemma set_below: "set (below n) = {x. x < n}"
proof (intro set_eqI iffI)
  fix x :: uint
  assume "x \<in> set (below n)"
  then obtain k where k: "k < unat n" "x = of_nat k" by (auto simp: below_def)
  have "unat n < 2 ^ 32" using unsigned_less [of n] by simp
  with k have "unat x = k" by (simp add: unat_of_nat)
  with k show "x \<in> {x. x < n}" by (simp add: word_less_nat_alt)
next
  fix x :: uint
  assume "x \<in> {x. x < n}"
  then have "unat x < unat n" by (simp add: word_less_nat_alt)
  moreover have "x = of_nat (unat x)" by simp
  ultimately show "x \<in> set (below n)" unfolding below_def by (metis atLeast0LessThan imageI lessThan_iff set_map set_upt)
qed

lemma set_launch:
  "set (launch grid block) =
     {(by, ty, bx, tx). by < dim_y grid \<and> ty < dim_y block \<and> bx < dim_x grid \<and> tx < dim_x block}"
  by (auto simp: launch_def set_below)

lemma cover_1d:
  fixes v :: size_t and g B :: uint
  assumes v: "unat v < N" and N: "N \<le> 2 ^ 32" and B: "unat B = K" "0 < K"
    and g: "unat g = (N + (K - 1)) div K"
  shows "\<exists>b t. b < g \<and> t < B \<and> (ucast (b * B + t) :: size_t) = v"
proof -
  let ?q = "unat v div K" and ?r = "unat v mod K"
  let ?b = "of_nat ?q :: uint" and ?t = "of_nat ?r :: uint"
  have v32: "unat v < 2 ^ 32" using v N by simp
  have q32: "?q < 2 ^ 32" using v32 by (meson div_le_dividend le_less_trans)
  have r32: "?r < 2 ^ 32" using v32 by (meson mod_less_eq_dividend le_less_trans)
  have ub: "unat ?b = ?q" using q32 by (simp add: unat_of_nat)
  have ut: "unat ?t = ?r" using r32 by (simp add: unat_of_nat)
  have "unat v + 1 \<le> N" using v by simp
  then have "(unat v + 1 + (K - 1)) div K \<le> (N + (K - 1)) div K"
    by (intro div_le_mono) simp
  moreover have "unat v + 1 + (K - 1) = unat v + K" using B(2) by simp
  moreover have "(unat v + K) div K = ?q + 1" using B(2) div_add_self2 [of K "unat v"] by simp
  ultimately have "?q < (N + (K - 1)) div K" by simp
  then have 1: "?b < g" using ub g by (simp add: word_less_nat_alt)
  have 2: "?t < B" using ut B by (simp add: word_less_nat_alt)
  have "B = of_nat (unat B)" by simp
  then have "B = of_nat K" unfolding B(1) .
  then have "?b * B + ?t = (of_nat (?q * K + ?r) :: uint)"
    by (simp only: of_nat_add of_nat_mult)
  also have "?q * K + ?r = unat v" by simp
  finally have e: "?b * B + ?t = (of_nat (unat v) :: uint)" .
  have "unat (ucast (of_nat (unat v) :: uint) :: size_t) = unat v"
    using v32 by (simp only: unsigned_ucast_eq unat_of_nat take_bit_eq_mod) simp
  then have 3: "(ucast (?b * B + ?t) :: size_t) = v"
    unfolding e by (simp only: word_unat_eq_iff)
  from 1 2 3 show ?thesis by blast
qed

lemma thread_cover:
  assumes cfg: "configured m"
    and b: "unat (width m) \<le> 2 ^ 32" "unat (height m) \<le> 2 ^ 32"
    and v: "row < height m" "col < width m"
  shows "\<exists>t \<in> set (launch (gridSize m) (blockSize m)).
           thread_row (blockSize m) t = row \<and> thread_col (blockSize m) t = col"
proof -
  have bs: "dim_x (blockSize m) = 32" "dim_y (blockSize m) = 16"
    using cfg by (simp_all add: configured_def ComputeCudaConfig_def kBlockDimX_def kBlockDimY_def)
  have gx: "unat (dim_x (gridSize m)) = (unat (width m) + (32 - 1)) div 32"
  proof -
    have "dim_x (gridSize m) = ucast ((width m - 1) div kBlockDimX + 1)"
      using cfg by (simp add: configured_def ComputeCudaConfig_def)
    then have "unat (dim_x (gridSize m)) = ((unat (width m) + 31) div 32) mod 2 ^ 32"
      by (simp only: grid_extent_x)
    moreover have "(unat (width m) + 31) div 32 < 2 ^ 32" using b(1) by simp
    ultimately show ?thesis by simp
  qed
  have gy: "unat (dim_y (gridSize m)) = (unat (height m) + (16 - 1)) div 16"
  proof -
    have "dim_y (gridSize m) = ucast ((height m - 1) div kBlockDimY + 1)"
      using cfg by (simp add: configured_def ComputeCudaConfig_def)
    then have "unat (dim_y (gridSize m)) = ((unat (height m) + 15) div 16) mod 2 ^ 32"
      by (simp only: grid_extent_y)
    moreover have "(unat (height m) + 15) div 16 < 2 ^ 32" using b(2) by simp
    ultimately show ?thesis by simp
  qed
  have "unat row < unat (height m)" "unat col < unat (width m)"
    using v by (simp_all add: word_less_nat_alt)
  from cover_1d [OF this(1) b(2) _ _ gy, of "dim_y (blockSize m)"]
       cover_1d [OF this(2) b(1) _ _ gx, of "dim_x (blockSize m)"]
  obtain yb yt xb xt where
    "yb < dim_y (gridSize m)" "yt < dim_y (blockSize m)"
    "(ucast (yb * dim_y (blockSize m) + yt) :: size_t) = row"
    "xb < dim_x (gridSize m)" "xt < dim_x (blockSize m)"
    "(ucast (xb * dim_x (blockSize m) + xt) :: size_t) = col"
    unfolding bs by auto
  then have "(yb, yt, xb, xt) \<in> set (launch (gridSize m) (blockSize m))"
    "thread_row (blockSize m) (yb, yt, xb, xt) = row"
    "thread_col (blockSize m) (yb, yt, xb, xt) = col"
    by (simp_all add: set_launch thread_row_def thread_col_def)
  then show ?thesis by blast
qed

lemma FillWithVector_fold:
  "FillWithVector sz m hmem values mem =
     fold (\<lambda>x mem. store mem
             (case x of (t, k) \<Rightarrow> elem_addr sz m (thread_row (blockSize m) t)
                                     (thread_col (blockSize m) t) (of_nat k))
             (case x of (t, k) \<Rightarrow> values_at sz (load hmem values (unat (depth m * of_nat sz))) k))
       (List.product (filter (\<lambda>t. thread_row (blockSize m) t < height m
                                 \<and> thread_col (blockSize m) t < width m)
                        (launch (gridSize m) (blockSize m)))
                     [0..<unat (depth m)]) mem"
proof -
  let ?vd = "load hmem values (unat (depth m * of_nat sz))"
  let ?g = "\<lambda>t k mem. store mem
              (elem_addr sz m (thread_row (blockSize m) t) (thread_col (blockSize m) t) (of_nat k))
              (values_at sz ?vd k)"
  let ?P = "\<lambda>t. thread_row (blockSize m) t < height m \<and> thread_col (blockSize m) t < width m"
  have "FillWithVectorKernel sz ?vd m (blockSize m)
        = (\<lambda>t mem. if ?P t then fold (?g t) [0..<unat (depth m)] mem else mem)"
    by (intro ext) (simp add: FillWithVectorKernel_def Let_def Set_def [abs_def])
  then have "FillWithVector sz m hmem values mem
        = fold (\<lambda>t. fold (?g t) [0..<unat (depth m)]) (filter ?P (launch (gridSize m) (blockSize m))) mem"
    by (simp add: FillWithVector_def Let_def fold_filter_if)
  also have "\<dots> = fold (\<lambda>(t, k). ?g t k)
        (List.product (filter ?P (launch (gridSize m) (blockSize m))) [0..<unat (depth m)]) mem"
    by (simp only: fold_product)
  finally show ?thesis by (simp add: case_prod_unfold)
qed

lemma of_nat_less_depth:
  fixes d :: size_t
  assumes "k < unat d"
  shows "(of_nat k :: size_t) < d" "unat (of_nat k :: size_t) = k"
proof -
  have "unat d < 2 ^ 64" using unsigned_less [of d] by simp
  with assms show u: "unat (of_nat k :: size_t) = k" by (simp add: unat_of_nat)
  then show "(of_nat k :: size_t) < d" using assms by (simp add: word_less_nat_alt)
qed

lemma allocated_depth_bytes:
  assumes al: "allocated sz m" and w: "0 < unat (width m)" and h: "0 < unat (height m)"
  shows "unat (depth m * of_nat sz) = unat (depth m) * sz"
proof -
  have "sz \<le> unat (width m) * sz" using w by simp
  also have "\<dots> \<le> unat (pitch m)" using al by (simp add: allocated_def)
  finally have "unat (depth m) * sz \<le> unat (depth m) * unat (pitch m)" by (rule mult_le_mono2)
  also have "\<dots> \<le> unat (depth m) * unat (pitch m) * unat (height m)" using h by simp
  also have "\<dots> = unat (pitch m) * unat (height m) * unat (depth m)" by (simp add: mult_ac)
  also have "\<dots> < 2 ^ 64" using al by (simp add: allocated_def)
  finally show ?thesis by (rule unat_mult_of_nat)
qed

lemma thread_col_bound: "unat (thread_col bd t) < 2 ^ 32"
proof -
  obtain yb yt xb xt where t: "t = (yb, yt, xb, xt)" by (metis prod_cases4)
  have lt: "unat (xb * dim_x bd + xt) < 2 ^ 32"
    using unsigned_less [of "xb * dim_x bd + xt", where 'a = nat] by simp
  then have "unat (xb * dim_x bd + xt) < 2 ^ 64" by simp
  then have "unat (ucast (xb * dim_x bd + xt :: uint) :: size_t) = unat (xb * dim_x bd + xt)"
    by (simp add: unsigned_ucast_eq take_bit_eq_mod)
  with lt show ?thesis by (simp add: thread_col_def t)
qed

section \<open>Files\<close>

lemma write_after_open_out:
  "write_bytes (open_app (write_bytes (open_out fs f) f hdr) f) f bs = fs(f \<mapsto> hdr @ bs)"
  by (simp add: write_bytes_def open_out_def open_app_def)



lemma to_streamsize_small:
  assumes "unat n < 2 ^ 63"
  shows "to_streamsize n = int (unat n)"
proof -
  have "int (unat n) < int (2 ^ 63)" using assms by (simp only: of_nat_less_iff)
  then have "uint n < 2 ^ 63" by simp
  moreover have "- (2 ^ 63) \<le> uint n" by (rule order_trans [of _ 0]) simp_all
  ultimately have "signed_take_bit 63 (uint n) = uint n"
    by (rule signed_take_bit_int_eq_self [rotated])
  then show ?thesis by (simp add: to_streamsize_def sint_uint)
qed

lemma to_streamsize_large:
  assumes "2 ^ 63 \<le> unat n"
  shows "to_streamsize n \<le> 0"
proof -
  have "int (2 ^ 63) \<le> int (unat n)" using assms by (simp only: of_nat_le_iff)
  then have "2 ^ 63 \<le> uint n" by simp
  then have "signed_take_bit 63 (uint n) \<le> uint n - 2 ^ Suc 63"
    by (rule signed_take_bit_int_less_eq)
  moreover have "uint n < 2 ^ 64" using uint_lt2p [of n] by simp
  ultimately show ?thesis by (simp add: to_streamsize_def sint_uint)
qed

lemma istream_read_count:
  "istream_read s (to_streamsize n) =
     (if failbit s \<or> eofbit s \<or> 2 ^ 63 \<le> unat n then []
      else take (unat n) (drop (gpos s) (contents s)))"
proof (cases "unat n < 2 ^ 63")
  case True
  then have ts: "to_streamsize n = int (unat n)" by (rule to_streamsize_small)
  have r: "istream_read s (int k)
             = (if failbit s \<or> eofbit s then [] else take k (drop (gpos s) (contents s)))" for k
    by (cases "k = 0") (simp_all add: istream_read_def)
  show ?thesis unfolding ts r [of "unat n"] using True by simp
next
  case False
  then have "to_streamsize n \<le> 0" by (simp add: to_streamsize_large)
  then show ?thesis using False by (simp add: istream_read_def)
qed


section \<open>The header, written and parsed\<close>

declare dec_digits.simps [simp del]

lemma digit_byte:
  assumes "d < 10"
  shows "is_digit (of_nat (48 + d))" "unat (of_nat (48 + d) :: byte) - 48 = d"
    "\<not> is_space (of_nat (48 + d))" "(of_nat (48 + d) :: byte) \<noteq> 43" "(of_nat (48 + d) :: byte) \<noteq> 45"
proof -
  have "(48 + d) mod 2 ^ LENGTH(8) = 48 + d" using assms by simp
  then have u: "unat (of_nat (48 + d) :: byte) = 48 + d" by (simp only: unat_of_nat)
  show "is_digit (of_nat (48 + d))"
    unfolding is_digit_def word_le_nat_alt u using assms by simp
  show "unat (of_nat (48 + d) :: byte) - 48 = d" unfolding u by simp
  show "\<not> is_space (of_nat (48 + d))"
    unfolding is_space_def word_le_nat_alt word_unat_eq_iff u by simp
  show "(of_nat (48 + d) :: byte) \<noteq> 43" "(of_nat (48 + d) :: byte) \<noteq> 45"
    unfolding word_unat_eq_iff u by simp_all
qed

lemma dec_digits_all: "\<forall>b \<in> set (dec_digits n). is_digit b"
proof (induction n rule: dec_digits.induct)
  case (1 n)
  show ?case
  proof (cases "n < 10")
    case True
    then show ?thesis using digit_byte(1) [of n] by (subst dec_digits.simps) simp
  next
    case False
    have "n mod 10 < 10" by simp
    then have "is_digit (of_nat (48 + n mod 10))" by (rule digit_byte(1))
    then show ?thesis using False 1 by (subst dec_digits.simps) simp
  qed
qed

lemma dec_digits_nonempty: "dec_digits n \<noteq> []"
  by (subst dec_digits.simps) simp

lemma digits_value_snoc: "digits_value (ds @ [b]) = digits_value ds * 10 + (unat b - 48)"
  by (simp add: digits_value_def)

lemma digits_value_dec: "digits_value (dec_digits n) = n"
proof (induction n rule: dec_digits.induct)
  case (1 n)
  show ?case
  proof (cases "n < 10")
    case True
    then show ?thesis using digit_byte(2) [of n]
      by (subst dec_digits.simps) (simp add: digits_value_def)
  next
    case False
    have "n mod 10 < 10" by simp
    then have "unat (of_nat (48 + n mod 10) :: byte) - 48 = n mod 10" by (rule digit_byte(2))
    then show ?thesis using False 1
      by (subst dec_digits.simps) (simp add: digits_value_snoc)
  qed
qed

lemma hd_dec_digits:
  "is_digit (hd (dec_digits n))"
  using dec_digits_all [of n] dec_digits_nonempty [of n] by (cases "dec_digits n") simp_all

lemma is_digit_plain:
  assumes "is_digit b"
  shows "\<not> is_space b" "b \<noteq> 43" "b \<noteq> 45"
proof -
  from assms have "48 \<le> unat b" by (simp add: is_digit_def word_le_nat_alt)
  then show "\<not> is_space b" "b \<noteq> 43" "b \<noteq> 45"
    by (auto simp: is_space_def word_le_nat_alt word_unat_eq_iff)
qed

lemma ampersand_plain: "\<not> is_space ampersand" "\<not> is_digit ampersand"
  by (simp_all add: ampersand_def is_space_def is_digit_def)

lemma sentry_plain:
  assumes good: "\<not> failbit s" "\<not> eofbit s"
    and rest: "drop (gpos s) (contents s) = b # bs" and b: "\<not> is_space b"
  shows "sentry s = s"
  using assms by (simp add: sentry_def Let_def)

lemma drop_after:
  assumes "drop g c = xs @ ys"
  shows "drop (g + length xs) c = ys"
proof -
  have "drop (length xs) (drop g c) = ys" using assms by simp
  then show ?thesis by (simp add: add.commute)
qed

lemma extract_char_ampersand:
  assumes good: "\<not> failbit s" "\<not> eofbit s"
    and rest: "drop (gpos s) (contents s) = ampersand # bs"
  shows "extract_char s = (Some ampersand, s\<lparr> gpos := gpos s + 1 \<rparr>)"
proof -
  have s: "sentry s = s" using good rest ampersand_plain(1) by (rule sentry_plain)
  have "gpos s < length (contents s)"
    using rest by (metis drop_eq_Nil not_le list.distinct(1))
  then have "contents s ! gpos s = hd (drop (gpos s) (contents s))"
    by (simp add: hd_drop_conv_nth)
  then have "contents s ! gpos s = ampersand" using rest by simp
  then show ?thesis using good by (simp add: extract_char_def s)
qed

lemma extract_size_t_dec:
  assumes good: "\<not> failbit s" "\<not> eofbit s"
    and rest: "drop (gpos s) (contents s) = dec_digits n @ ampersand # bs"
    and n: "n < 2 ^ 64"
  shows "extract_size_t s = (Some (of_nat n), s\<lparr> gpos := gpos s + length (dec_digits n) \<rparr>)"
proof -
  obtain b ds where d: "dec_digits n = b # ds"
    using dec_digits_nonempty [of n] by (cases "dec_digits n") auto
  have bd: "is_digit b" using hd_dec_digits [of n] d by simp
  note pl = is_digit_plain [OF bd]
  have s: "sentry s = s" using good rest pl(1) unfolding d by (simp add: sentry_plain)
  have hd: "hd (drop (gpos s) (contents s)) = b" using rest d by simp
  have tw: "takeWhile is_digit (drop (gpos s) (contents s)) = dec_digits n"
    unfolding rest using dec_digits_all [of n] ampersand_plain(2)
    by (simp add: takeWhile_append2)
  have len: "length (dec_digits n) \<noteq> length (drop (gpos s) (contents s))"
    unfolding rest by simp
  have e: "s\<lparr> gpos := gpos s + length (dec_digits n), eofbit := False \<rparr>
           = s\<lparr> gpos := gpos s + length (dec_digits n) \<rparr>"
    using good by simp
  show ?thesis
    unfolding extract_size_t_def s Let_def
    using good pl n len e
    by (simp add: hd tw dec_digits_nonempty digits_value_dec)
qed

lemma parse_header_written:
  assumes "w < 2 ^ 64" "h < 2 ^ 64" "d < 2 ^ 64"
  shows "parse_header (header w h d @ payload)
       = (Some (of_nat w), Some (of_nat h), Some (of_nat d), Some (length (header w h d)))"
proof -
  let ?c = "header w h d @ payload"
  let ?lw = "length (dec_digits w)" and ?lh = "length (dec_digits h)" and ?ld = "length (dec_digits d)"
  let ?s0 = "open_in ?c"
  let ?s1 = "?s0\<lparr> gpos := ?lw \<rparr>"
  let ?s2 = "?s0\<lparr> gpos := ?lw + 1 \<rparr>"
  let ?s3 = "?s0\<lparr> gpos := ?lw + 1 + ?lh \<rparr>"
  let ?s4 = "?s0\<lparr> gpos := ?lw + 1 + ?lh + 1 \<rparr>"
  let ?s5 = "?s0\<lparr> gpos := ?lw + 1 + ?lh + 1 + ?ld \<rparr>"
  let ?s6 = "?s0\<lparr> gpos := ?lw + 1 + ?lh + 1 + ?ld + 1 \<rparr>"
  have c: "?c = dec_digits w @ ampersand # dec_digits h @ ampersand # dec_digits d @ ampersand # payload"
    by (simp add: header_def)
  have d0: "drop 0 ?c = dec_digits w @ ampersand # (dec_digits h @ ampersand # dec_digits d @ ampersand # payload)"
    by (simp add: c)
  have d1: "drop ?lw ?c = ampersand # (dec_digits h @ ampersand # dec_digits d @ ampersand # payload)"
    using drop_after [OF d0] by simp
  have d2: "drop (?lw + 1) ?c = dec_digits h @ ampersand # (dec_digits d @ ampersand # payload)"
    using drop_after [of ?lw ?c "[ampersand]"] d1 by simp
  have d3: "drop (?lw + 1 + ?lh) ?c = ampersand # (dec_digits d @ ampersand # payload)"
    using drop_after [OF d2] by simp
  have d4: "drop (?lw + 1 + ?lh + 1) ?c = dec_digits d @ ampersand # payload"
    using drop_after [of "?lw + 1 + ?lh" ?c "[ampersand]"] d3 by simp
  have d5: "drop (?lw + 1 + ?lh + 1 + ?ld) ?c = ampersand # payload"
    using drop_after [OF d4] by simp
  have e1: "extract_size_t ?s0 = (Some (of_nat w), ?s1)"
    using extract_size_t_dec [of ?s0 w, OF _ _ _ assms(1)] d0 by (simp add: open_in_def)
  have e2: "extract_char ?s1 = (Some ampersand, ?s2)"
    using extract_char_ampersand [of ?s1] d1 by (simp add: open_in_def)
  have e3: "extract_size_t ?s2 = (Some (of_nat h), ?s3)"
    using extract_size_t_dec [of ?s2 h, OF _ _ _ assms(2)] d2 by (simp add: open_in_def)
  have e4: "extract_char ?s3 = (Some ampersand, ?s4)"
    using extract_char_ampersand [of ?s3] d3 by (simp add: open_in_def)
  have e5: "extract_size_t ?s4 = (Some (of_nat d), ?s5)"
    using extract_size_t_dec [of ?s4 d, OF _ _ _ assms(3)] d4 by (simp add: open_in_def)
  have e6: "extract_char ?s5 = (Some ampersand, ?s6)"
    using extract_char_ampersand [of ?s5] d5 by (simp add: open_in_def)
  have t: "tellg ?s6 = Some (length (header w h d))"
    by (simp add: tellg_def open_in_def header_def)
  show ?thesis unfolding parse_header_def e1 e2 e3 e4 e5 e6 prod.case t ..
qed

section \<open>Strided copies\<close>

lemma cudaMemcpy2D_ok:
  assumes "wb \<le> dp" "wb \<le> sp"
  shows "cudaMemcpy2D dmem dst dp smem src sp wb rows =
           Inr (fold (\<lambda>k mem. store mem (dst + k * dp) (load smem (src + k * sp) wb)) [0..<rows] dmem)"
  using assms by (simp add: cudaMemcpy2D_def)

lemma rows_disjoint:
  fixes dp wb k k' :: nat
  assumes "wb \<le> dp" "k \<noteq> k'"
  shows "dst + k * dp + wb \<le> dst + k' * dp \<or> dst + k' * dp + wb \<le> dst + k * dp"
proof -
  have step: "a * dp + wb \<le> a' * dp" if "a < a'" for a a' :: nat
  proof -
    have "a * dp + wb \<le> a * dp + dp" using assms(1) by simp
    also have "\<dots> = (a + 1) * dp" by simp
    also have "\<dots> \<le> a' * dp" using that by (intro mult_le_mono1) simp
    finally show ?thesis .
  qed
  from assms(2) consider "k < k'" | "k' < k" by linarith
  then show ?thesis
  proof cases
    case 1 from step [OF 1] show ?thesis by simp
  next
    case 2 from step [OF 2] show ?thesis by simp
  qed
qed

lemma cudaMemcpy2D_row:
  assumes ok: "cudaMemcpy2D dmem dst dp smem src sp wb rows = Inr r"
    and k: "k < rows" and j: "j < wb"
  shows "r (dst + k * dp + j) = smem (src + k * sp + j)"
proof -
  from ok have le: "wb \<le> dp" "wb \<le> sp"
    by (auto simp: cudaMemcpy2D_def split: if_splits)
  from ok have r: "r = fold (\<lambda>k mem. store mem (dst + k * dp) (load smem (src + k * sp) wb)) [0..<rows] dmem"
    by (simp add: cudaMemcpy2D_ok [OF le])
  have "fold (\<lambda>k mem. store mem (dst + k * dp) (load smem (src + k * sp) wb)) [0..<rows] dmem
          (dst + k * dp + j) = load smem (src + k * sp) wb ! j"
  proof (rule fold_store_inside)
    show "k \<in> set [0..<rows]" using k by simp
    show "j < length (load smem (src + k * sp) wb)" using j by (simp add: length_load)
  next
    fix t assume "t \<in> set [0..<rows]"
    show "dst + t * dp = dst + k * dp \<and> load smem (src + t * sp) wb = load smem (src + k * sp) wb \<or>
         dst + t * dp + length (load smem (src + t * sp) wb) \<le> dst + k * dp \<or>
         dst + k * dp + length (load smem (src + k * sp) wb) \<le> dst + t * dp"
      using rows_disjoint [OF le(1), of t k dst] by (cases "t = k") (simp_all add: length_load)
  qed
  then show ?thesis using j by (simp add: r load_def)
qed

lemma cudaMemcpy2D_frame:
  assumes ok: "cudaMemcpy2D dmem dst dp smem src sp wb rows = Inr r"
    and out: "\<And>k. k < rows \<Longrightarrow> p < dst + k * dp \<or> dst + k * dp + wb \<le> p"
  shows "r p = dmem p"
proof -
  from ok have le: "wb \<le> dp" "wb \<le> sp"
    by (auto simp: cudaMemcpy2D_def split: if_splits)
  from ok have r: "r = fold (\<lambda>k mem. store mem (dst + k * dp) (load smem (src + k * sp) wb)) [0..<rows] dmem"
    by (simp add: cudaMemcpy2D_ok [OF le])
  show ?thesis unfolding r
    by (rule fold_store_outside) (use out in \<open>simp add: length_load\<close>)
qed

lemma unat_mult_words:
  fixes a b :: size_t
  assumes "unat a * unat b < 2 ^ 64"
  shows "unat (a * b) = unat a * unat b"
  using assms by (simp add: unat_mult_lem [THEN iffD1])

lemma packed_sizes:
  assumes al: "allocated sz m" and pos: "0 < sz" "0 < unat (width m)"
    "0 < unat (height m)" "0 < unat (depth m)"
  shows "unat (width m * of_nat sz) = unat (width m) * sz"
    and "unat (height m * depth m) = unat (height m) * unat (depth m)"
    and "unat (width m * height m * depth m) = unat (width m) * unat (height m) * unat (depth m)"
    and "unat (width m * height m * depth m * of_nat sz)
           = unat (width m) * unat (height m) * unat (depth m) * sz"
    and "unat (width m) * sz \<le> unat (pitch m)"
proof -
  let ?W = "unat (width m)" and ?H = "unat (height m)" and ?D = "unat (depth m)"
  let ?P = "unat (pitch m)"
  show wp: "?W * sz \<le> ?P" using al by (simp add: allocated_def)
  have "?W * sz * (?H * ?D) \<le> ?P * (?H * ?D)" using wp by (rule mult_le_mono1)
  also have "\<dots> < 2 ^ 64" using al by (simp add: allocated_def mult.assoc)
  finally have N: "?W * ?H * ?D * sz < 2 ^ 64" by (simp add: mult_ac)
  have le1: "?W * sz \<le> ?W * ?H * ?D * sz" using pos by simp
  have le2: "?H * ?D \<le> ?W * ?H * ?D * sz" using pos by simp
  have le3: "?W * ?H \<le> ?W * ?H * ?D * sz" using pos by simp
  have le4: "?W * ?H * ?D \<le> ?W * ?H * ?D * sz" using pos by simp
  show "unat (width m * of_nat sz) = ?W * sz"
    using le1 N by (intro unat_mult_of_nat) (rule le_less_trans)
  show "unat (height m * depth m) = ?H * ?D"
    using le2 N by (intro unat_mult_words) (rule le_less_trans)
  have wh: "unat (width m * height m) = ?W * ?H"
    using le3 N by (intro unat_mult_words) (rule le_less_trans)
  have "unat (width m * height m) * ?D < 2 ^ 64" unfolding wh using le4 N by (rule le_less_trans)
  then show whd: "unat (width m * height m * depth m) = ?W * ?H * ?D"
    using wh by (simp add: unat_mult_words)
  have "unat (width m * height m * depth m) * sz < 2 ^ 64" unfolding whd using N .
  then show "unat (width m * height m * depth m * of_nat sz) = ?W * ?H * ?D * sz"
    using whd by (simp add: unat_mult_of_nat)
qed

lemma row_byte_index:
  fixes k j R wb :: nat
  assumes "k < R" "j < wb"
  shows "k * wb + j < R * wb"
proof -
  have "k * wb + j < (k + 1) * wb" using assms(2) by simp
  also have "\<dots> \<le> R * wb" using assms(1) by (intro mult_le_mono1) simp
  finally show ?thesis .
qed

lemma Write_file:
  assumes al: "allocated sz m" and pos: "0 < sz" "0 < unat (width m)"
    "0 < unat (height m)" "0 < unat (depth m)"
  shows "\<exists>bytes. Write sz m file_name fs mem
           = Inr (fs(file_name \<mapsto> header (unat (width m)) (unat (height m)) (unat (depth m)) @ bytes))
         \<and> length bytes = unat (width m) * unat (height m) * unat (depth m) * sz
         \<and> (\<forall>k < unat (height m) * unat (depth m). \<forall>j < unat (width m) * sz.
               bytes ! (k * (unat (width m) * sz) + j) = mem (array_ptr m + k * unat (pitch m) + j))"
proof -
  let ?W = "unat (width m)" and ?H = "unat (height m)" and ?D = "unat (depth m)"
  let ?P = "unat (pitch m)"
  note sizes = packed_sizes [OF al pos]
  let ?dest = "fold (\<lambda>k mem'. store mem' (0 + k * (?W * sz)) (load mem (array_ptr m + k * ?P) (?W * sz)))
                 [0..<?H * ?D] vector_store"
  have c: "CopyToHost sz m mem vector_store 0 (width m * of_nat sz) = Inr ?dest"
    unfolding CopyToHost_def sizes(1,2) using sizes(5) by (simp add: cudaMemcpy2D_ok)
  have c': "cudaMemcpy2D vector_store 0 (?W * sz) mem (array_ptr m) ?P (?W * sz) (?H * ?D) = Inr ?dest"
    using c unfolding CopyToHost_def sizes(1,2) .
  have cnt: "unat (of_nat sz * width m * height m * depth m) = ?W * ?H * ?D * sz"
    using sizes(4) by (simp add: mult_ac)
  have no: "\<not> overrun sz (width m * height m * depth m)
               (unat (width m * of_nat sz) * unat (height m * depth m))"
    unfolding overrun_def sizes by (simp add: mult_ac)
  let ?bytes = "load ?dest 0 (?W * ?H * ?D * sz)"
  have w: "Write sz m file_name fs mem = Inr (fs(file_name \<mapsto> header ?W ?H ?D @ ?bytes))"
    unfolding Write_def using no by (simp add: c cnt write_after_open_out)
  have "?bytes ! (k * (?W * sz) + j) = mem (array_ptr m + k * ?P + j)"
    if k: "k < ?H * ?D" and j: "j < ?W * sz" for k j
  proof -
    have "k * (?W * sz) + j < ?H * ?D * (?W * sz)" using k j by (rule row_byte_index)
    then have i: "k * (?W * sz) + j < ?W * ?H * ?D * sz" by (simp add: mult_ac)
    have "?dest (0 + k * (?W * sz) + j) = mem (array_ptr m + k * ?P + j)"
      using c' k j by (rule cudaMemcpy2D_row)
    then show ?thesis using i by (simp add: load_def)
  qed
  then show ?thesis using w by (intro exI [of _ ?bytes]) (simp add: length_load)
qed

lemma Read_file:
  assumes al: "allocated sz m" and pos: "0 < sz" "0 < unat (width m)"
    "0 < unat (height m)" "0 < unat (depth m)"
    and fl: "fs file_name = Some (header (unat (width m)) (unat (height m)) (unat (depth m)) @ bytes)"
    and len: "length bytes = unat (width m) * unat (height m) * unat (depth m) * sz"
    and small: "unat (width m) * unat (height m) * unat (depth m) * sz < 2 ^ 63"
  shows "\<exists>mem'. Read sz m file_name fs mem = Inr mem'
         \<and> (\<forall>k < unat (height m) * unat (depth m). \<forall>j < unat (width m) * sz.
               mem' (array_ptr m + k * unat (pitch m) + j) = bytes ! (k * (unat (width m) * sz) + j))"
proof -
  let ?W = "unat (width m)" and ?H = "unat (height m)" and ?D = "unat (depth m)"
  let ?P = "unat (pitch m)"
  let ?hd = "header ?W ?H ?D"
  note sizes = packed_sizes [OF al pos]
  have lt: "?W < 2 ^ 64" "?H < 2 ^ 64" "?D < 2 ^ 64"
    using unsigned_less [of "width m"] unsigned_less [of "height m"] unsigned_less [of "depth m"]
    by simp_all
  have ph: "parse_header (?hd @ bytes) = (Some (width m), Some (height m), Some (depth m), Some (length ?hd))"
    using parse_header_written [OF lt, of bytes] by simp
  have pl: "Read_payload sz (?hd @ bytes) = Inr bytes"
    unfolding Read_payload_def ph
    using small by (simp add: istream_read_count seekg_def open_in_def sizes(4) len)
  have no: "\<not> overrun sz (width m * height m * depth m) (length bytes)"
    "\<not> overrun sz (width m * height m * depth m)
         (unat (width m * of_nat sz) * unat (height m * depth m))"
    unfolding overrun_def sizes len by (simp_all add: mult_ac)
  let ?src = "store vector_store 0 bytes"
  let ?mem' = "fold (\<lambda>k mem'. store mem' (array_ptr m + k * ?P) (load ?src (0 + k * (?W * sz)) (?W * sz)))
                 [0..<?H * ?D] mem"
  have c: "cudaMemcpy2D mem (array_ptr m) ?P ?src 0 (?W * sz) (?W * sz) (?H * ?D) = Inr ?mem'"
    using sizes(5) by (simp add: cudaMemcpy2D_ok)
  have r: "Read sz m file_name fs mem = Inr ?mem'"
    unfolding Read_def fl using no c by (simp add: pl CopyToDevice_def sizes(1,2))
  have "?mem' (array_ptr m + k * ?P + j) = bytes ! (k * (?W * sz) + j)"
    if k: "k < ?H * ?D" and j: "j < ?W * sz" for k j
  proof -
    have "k * (?W * sz) + j < ?H * ?D * (?W * sz)" using k j by (rule row_byte_index)
    then have i: "k * (?W * sz) + j < length bytes" by (simp add: len mult_ac)
    have "?mem' (array_ptr m + k * ?P + j) = ?src (0 + k * (?W * sz) + j)"
      using c k j by (rule cudaMemcpy2D_row)
    then show ?thesis using i by (simp add: store_def)
  qed
  then show ?thesis using r by blast
qed

lemma elem_row_bytes:
  assumes al: "allocated sz m"
    and v: "row < height m" "col < width m" "sl < depth m" and i: "i < sz"
  shows "\<exists>k j. k < unat (height m) * unat (depth m) \<and> j < unat (width m) * sz
           \<and> elem_addr sz m row col sl + i = array_ptr m + k * unat (pitch m) + j
           \<and> k = unat sl * unat (height m) + unat row \<and> j = unat col * sz + i"
proof -
  let ?k = "unat sl * unat (height m) + unat row" and ?j = "unat col * sz + i"
  have u: "unat row < unat (height m)" "unat col < unat (width m)" "unat sl < unat (depth m)"
    using v by (simp_all add: word_less_nat_alt)
  have "?k < unat (depth m) * unat (height m)" using u(3,1) by (rule row_byte_index)
  then have 1: "?k < unat (height m) * unat (depth m)" by (simp add: mult.commute)
  have 2: "?j < unat (width m) * sz" using u(2) i by (rule row_byte_index)
  have 3: "elem_addr sz m row col sl + i = array_ptr m + ?k * unat (pitch m) + ?j"
    by (simp add: elem_addr_nat [OF al v(1,3)] mult.commute)
  from 1 2 3 show ?thesis by blast
qed

section \<open>The object across the methods\<close>




lemma ctor_configured:
  assumes "GpuMat_ctor sz cudaMallocPitch w h d = Inr m"
  shows "configured m"
  using assms
  by (auto simp: GpuMat_ctor_def configured_def ComputeCudaConfig_def split: option.splits)

text \<open>The generator state after the draws of one pixel.\<close>

lemma draw_state:
  "fst (draw curand_uniform scale sz output row col ks (s, mem))
     = ((\<lambda>s. snd (curand_uniform s)) ^^ length ks) s"
proof -
  define adv where "adv = (\<lambda>s. snd (curand_uniform s))"
  have "fst (draw curand_uniform scale sz output row col ks (s, mem)) = (adv ^^ length ks) s"
  proof (induction ks arbitrary: s mem)
    case Nil
    then show ?case by simp
  next
    case (Cons k ks)
    have "(adv ^^ length ks) (adv s) = adv ((adv ^^ length ks) s)"
      by (simp add: funpow_swap1)
    then show ?case using Cons by (simp add: case_prod_unfold adv_def)
  qed
  then show ?thesis by (simp add: adv_def)
qed

section \<open>Transforms\<close>

lemma set_pixels: "set (pixels w h) = {(r, c). r < h \<and> c < w}"
  by (auto simp: pixels_def)

lemma elem_in_footprint:
  assumes al: "allocated sz m"
    and v: "row < height m" "col < width m" "sl < depth m"
  shows "array_ptr m \<le> elem_addr sz m row col sl"
    and "elem_addr sz m row col sl + sz \<le> array_ptr m + footprint m"
proof -
  let ?P = "unat (pitch m)" and ?H = "unat (height m)" and ?D = "unat (depth m)"
  let ?k = "unat sl * ?H + unat row"
  have u: "unat row < ?H" "unat col < unat (width m)" "unat sl < ?D"
    using v by (simp_all add: word_less_nat_alt)
  have a: "elem_addr sz m row col sl = array_ptr m + ?P * ?k + unat col * sz"
    by (rule elem_addr_nat [OF al v(1,3)])
  show "array_ptr m \<le> elem_addr sz m row col sl" unfolding a by simp
  have "unat col * sz + sz = (unat col + 1) * sz" by simp
  also have "\<dots> \<le> unat (width m) * sz" using u(2) by (intro mult_le_mono1) simp
  also have "\<dots> \<le> ?P" using al by (simp add: allocated_def)
  finally have 1: "?P * ?k + unat col * sz + sz \<le> ?P * (?k + 1)" by simp
  have "?k + 1 \<le> unat sl * ?H + ?H" using u(1) by simp
  also have "\<dots> = (unat sl + 1) * ?H" by simp
  also have "\<dots> \<le> ?D * ?H" using u(3) by (intro mult_le_mono1) simp
  finally have "?P * (?k + 1) \<le> ?P * (?D * ?H)" by (rule mult_le_mono2)
  with 1 have "?P * ?k + unat col * sz + sz \<le> ?P * (?D * ?H)" by (rule le_trans)
  then show "elem_addr sz m row col sl + sz \<le> array_ptr m + footprint m"
    unfolding a footprint_def by (simp add: mult_ac)
qed

lemma slice_ptr_exact:
  assumes al: "allocated sz m" and sz0: "0 < sz" and dv: "sz dvd unat (pitch m)"
    and pos: "0 < unat (width m)" "0 < unat (height m)" and k: "k < unat (depth m)"
  shows "slice_ptr sz m k = array_ptr m + unat (pitch m) * (k * unat (height m))"
proof -
  let ?P = "unat (pitch m)" and ?H = "unat (height m)" and ?D = "unat (depth m)"
  have fit: "?P * ?H * ?D < 2 ^ 64" using al by (simp add: allocated_def)
  have szP: "sz \<le> ?P"
  proof -
    have "sz \<le> unat (width m) * sz" using pos(1) by simp
    also have "\<dots> \<le> ?P" using al by (simp add: allocated_def)
    finally show ?thesis .
  qed
  have "k * (?P * ?H) \<le> ?D * (?P * ?H)" using k by (intro mult_le_mono1) simp
  also have "\<dots> = ?P * ?H * ?D" by (simp add: mult_ac)
  finally have "k * (?P * ?H) < 2 ^ 64" using fit by (rule le_less_trans)
  then have kPH: "k * ?P * ?H < 2 ^ 64" by (simp only: mult.assoc)
  have "k * ?P \<le> k * ?P * ?H" using pos(2) by simp
  then have kP: "k * ?P < 2 ^ 64" using kPH by (rule le_less_trans)
  have uk: "unat (of_nat k :: size_t) = k" using of_nat_less_depth(2) [OF k] .
  have "?P < 2 ^ 64" using unsigned_less [of "pitch m", where 'a = nat] by simp
  then have usz: "unat (of_nat sz :: size_t) = sz"
    using szP by (simp add: unat_of_nat)
  have 1: "unat (of_nat k * pitch m) = k * ?P"
    using kP uk by (simp add: unat_mult_words)
  have 2: "unat (of_nat k * pitch m div of_nat sz) = k * ?P div sz"
    by (simp only: unat_div 1 usz)
  have "k * ?P div sz * ?H \<le> k * ?P * ?H" by (intro mult_le_mono1 div_le_dividend)
  then have "unat (of_nat k * pitch m div of_nat sz) * ?H < 2 ^ 64"
    unfolding 2 using kPH by (rule le_less_trans)
  then have 3: "unat (of_nat k * pitch m div of_nat sz * height m) = k * ?P div sz * ?H"
    using 2 by (simp add: unat_mult_words)
  have "sz dvd k * ?P" using dv by simp
  then have "k * ?P div sz * sz = k * ?P" by simp
  then have "k * ?P div sz * ?H * sz = k * ?P * ?H" by (simp add: mult.assoc mult.commute [of ?H])
  then show ?thesis unfolding slice_ptr_def 3 by (simp add: mult_ac)
qed

lemma pixel_addr:
  assumes al: "allocated sz m" and sz0: "0 < sz" and dv: "sz dvd unat (pitch m)"
    and r: "r < unat (height m)" and c: "c < unat (width m)" and k: "k < unat (depth m)"
  shows "slice_ptr sz m k + r * unat (pitch m) + c * sz
           = elem_addr sz m (of_nat r) (of_nat c) (of_nat k)"
    and "(of_nat r :: size_t) < height m" "(of_nat c :: size_t) < width m"
        "(of_nat k :: size_t) < depth m"
proof -
  have pos: "0 < unat (width m)" "0 < unat (height m)" using r c by simp_all
  note R = of_nat_less_depth [OF r] and C = of_nat_less_depth [OF c] and K = of_nat_less_depth [OF k]
  show "(of_nat r :: size_t) < height m" "(of_nat c :: size_t) < width m"
        "(of_nat k :: size_t) < depth m" using R(1) C(1) K(1) .
  have "elem_addr sz m (of_nat r) (of_nat c) (of_nat k)
        = array_ptr m + unat (pitch m) * (k * unat (height m) + r) + c * sz"
    using elem_addr_nat [OF al R(1) K(1), of "of_nat c"] by (simp add: R(2) C(2) K(2))
  then show "slice_ptr sz m k + r * unat (pitch m) + c * sz
           = elem_addr sz m (of_nat r) (of_nat c) (of_nat k)"
    unfolding slice_ptr_exact [OF al sz0 dv pos k] by (simp add: algebra_simps)
qed

lemma separate_elems:
  assumes sep: "separate a b" and ala: "allocated sz a" and alb: "allocated sz b"
    and va: "row < height a" "col < width a" "sl < depth a"
    and vb: "row' < height b" "col' < width b" "sl' < depth b"
  shows "elem_addr sz a row col sl + sz \<le> elem_addr sz b row' col' sl'
       \<or> elem_addr sz b row' col' sl' + sz \<le> elem_addr sz a row col sl"
  using sep elem_in_footprint [OF ala va] elem_in_footprint [OF alb vb]
  unfolding separate_def by linarith

lemma scatter_spec:
  fixes dr dc :: "nat \<Rightarrow> nat \<Rightarrow> nat"
  assumes ala: "allocated sz a" and alb: "allocated sz b" and sz0: "0 < sz"
    and dva: "sz dvd unat (pitch a)" and dvb: "sz dvd unat (pitch b)"
    and sep: "separate a b"
    and dep: "unat (depth a) \<le> unat (depth b)"
    and maps: "\<And>r c. r < unat (height a) \<Longrightarrow> c < unat (width a) \<Longrightarrow>
                 dr r c < unat (height b) \<and> dc r c < unat (width b)"
    and inj: "\<And>r c r' c'. r < unat (height a) \<Longrightarrow> c < unat (width a) \<Longrightarrow>
                 r' < unat (height a) \<Longrightarrow> c' < unat (width a) \<Longrightarrow>
                 dr r c = dr r' c' \<Longrightarrow> dc r c = dc r' c' \<Longrightarrow> r = r' \<and> c = c'"
    and k0: "k0 < unat (depth a)" and r0: "r0 < unat (height a)" and c0: "c0 < unat (width a)"
  shows "Get sz b
           (fold (\<lambda>k. fold (\<lambda>(r, c). copy_elem sz
                     (slice_ptr sz b k + dr r c * unat (pitch b) + dc r c * sz)
                     (slice_ptr sz a k + r * unat (pitch a) + c * sz))
                   (pixels (unat (width a)) (unat (height a))))
              [0..<unat (depth a)] mem)
           (of_nat (dr r0 c0)) (of_nat (dc r0 c0)) (of_nat k0)
         = Get sz a mem (of_nat r0) (of_nat c0) (of_nat k0)"
proof -
  let ?ts = "List.product [0..<unat (depth a)] (pixels (unat (width a)) (unat (height a)))"
  let ?dst = "\<lambda>t. case t of (k, r, c) \<Rightarrow> slice_ptr sz b k + dr r c * unat (pitch b) + dc r c * sz"
  let ?src = "\<lambda>t. case t of (k, r, c) \<Rightarrow> slice_ptr sz a k + r * unat (pitch a) + c * sz"
  let ?val = "\<lambda>t. load mem (?src t) sz"
  have mem_ts: "(k, r, c) \<in> set ?ts \<longleftrightarrow> k < unat (depth a) \<and> r < unat (height a) \<and> c < unat (width a)"
    for k r c by (auto simp: set_pixels)
  have srcE: "?src (k, r, c) = elem_addr sz a (of_nat r) (of_nat c) (of_nat k)"
    and srcV: "(of_nat r :: size_t) < height a" "(of_nat c :: size_t) < width a"
      "(of_nat k :: size_t) < depth a"
    if "(k, r, c) \<in> set ?ts" for k r c
    using pixel_addr [OF ala sz0 dva, of r c k] that unfolding mem_ts by simp_all
  have dstE: "?dst (k, r, c) = elem_addr sz b (of_nat (dr r c)) (of_nat (dc r c)) (of_nat k)"
    and dstV: "(of_nat (dr r c) :: size_t) < height b" "(of_nat (dc r c) :: size_t) < width b"
      "(of_nat k :: size_t) < depth b"
    if "(k, r, c) \<in> set ?ts" for k r c
  proof -
    from that have h: "k < unat (depth a)" "r < unat (height a)" "c < unat (width a)"
      unfolding mem_ts by simp_all
    then have "dr r c < unat (height b)" "dc r c < unat (width b)" "k < unat (depth b)"
      using maps [of r c] dep by simp_all
    from pixel_addr [OF alb sz0 dvb this]
    show "?dst (k, r, c) = elem_addr sz b (of_nat (dr r c)) (of_nat (dc r c)) (of_nat k)"
      "(of_nat (dr r c) :: size_t) < height b" "(of_nat (dc r c) :: size_t) < width b"
      "(of_nat k :: size_t) < depth b" by simp_all
  qed
  have apart: "?src t + sz \<le> ?dst t' \<or> ?dst t' + sz \<le> ?src t"
    if "t \<in> set ?ts" "t' \<in> set ?ts" for t t'
  proof -
    obtain k r c k' r' c' where t: "t = (k, r, c)" "t' = (k', r', c')"
      by (metis prod_cases3)
    from that have i1: "(k, r, c) \<in> set ?ts" and i2: "(k', r', c') \<in> set ?ts"
      unfolding t by simp_all
    have "elem_addr sz a (of_nat r) (of_nat c) (of_nat k) + sz
            \<le> elem_addr sz b (of_nat (dr r' c')) (of_nat (dc r' c')) (of_nat k')
        \<or> elem_addr sz b (of_nat (dr r' c')) (of_nat (dc r' c')) (of_nat k') + sz
            \<le> elem_addr sz a (of_nat r) (of_nat c) (of_nat k)"
      by (rule separate_elems [OF sep ala alb srcV [OF i1] dstV [OF i2]])
    then show ?thesis unfolding t srcE [OF i1] dstE [OF i2] .
  qed
  let ?t0 = "(k0, r0, c0)"
  have in0: "?t0 \<in> set ?ts" using k0 r0 c0 unfolding mem_ts by simp
  have same: "(?dst t = ?dst ?t0 \<and> ?val t = ?val ?t0)
           \<or> ?dst t + length (?val t) \<le> ?dst ?t0 \<or> ?dst ?t0 + length (?val ?t0) \<le> ?dst t"
    if "t \<in> set ?ts" for t
  proof -
    obtain k r c where t: "t = (k, r, c)" by (metis prod_cases3)
    from that have h: "k < unat (depth a)" "r < unat (height a)" "c < unat (width a)"
      unfolding t mem_ts by simp_all
    have tin: "(k, r, c) \<in> set ?ts" using that t by simp
    have bnd: "dr r c < unat (height b)" "dc r c < unat (width b)" "k < unat (depth b)"
      "dr r0 c0 < unat (height b)" "dc r0 c0 < unat (width b)" "k0 < unat (depth b)"
      using maps [OF h(2,3)] maps [OF r0 c0] h(1) k0 dep by simp_all
    show ?thesis
    proof (cases "((of_nat (dr r c), of_nat (dc r c), of_nat k) :: size_t \<times> size_t \<times> size_t)
                   = (of_nat (dr r0 c0), of_nat (dc r0 c0), of_nat k0)")
      case True
      then have "unat (of_nat (dr r c) :: size_t) = unat (of_nat (dr r0 c0) :: size_t)"
        "unat (of_nat (dc r c) :: size_t) = unat (of_nat (dc r0 c0) :: size_t)"
        "unat (of_nat k :: size_t) = unat (of_nat k0 :: size_t)" by simp_all
      then have "dr r c = dr r0 c0" "dc r c = dc r0 c0" "k = k0"
        using bnd by (simp_all add: of_nat_less_depth(2))
      then have "r = r0 \<and> c = c0 \<and> k = k0" using inj [OF h(2,3) r0 c0] by simp
      then show ?thesis unfolding t by simp
    next
      case False
      from elem_disjoint [OF alb dstV [OF in0] dstV [OF tin] False]
      show ?thesis unfolding t
        by (simp only: dstE [OF tin] dstE [OF in0] length_load) blast
    qed
  qed
  have "fold (\<lambda>k. fold (\<lambda>(r, c). copy_elem sz
                     (slice_ptr sz b k + dr r c * unat (pitch b) + dc r c * sz)
                     (slice_ptr sz a k + r * unat (pitch a) + c * sz))
                   (pixels (unat (width a)) (unat (height a))))
              [0..<unat (depth a)] mem
        = fold (\<lambda>t. copy_elem sz (?dst t) (?src t)) ?ts mem"
    by (simp add: fold_product case_prod_unfold)
  also have "\<dots> = fold (\<lambda>t m. store m (?dst t) (?val t)) ?ts mem"
    using apart by (intro fold_copy_elem) auto
  finally have "load (fold (\<lambda>k. fold (\<lambda>(r, c). copy_elem sz
                     (slice_ptr sz b k + dr r c * unat (pitch b) + dc r c * sz)
                     (slice_ptr sz a k + r * unat (pitch a) + c * sz))
                   (pixels (unat (width a)) (unat (height a))))
              [0..<unat (depth a)] mem) (?dst ?t0) sz = ?val ?t0"
    using fold_store_load [of ?t0 ?ts ?val sz ?dst mem, OF in0 _ same]
    by (simp add: length_load)
  then show ?thesis
    unfolding Get_def using dstE [OF in0] srcE [OF in0] by simp
qed

lemma Rotate_spec:
  assumes al: "allocated sz m" "allocated sz out" and sz0: "0 < sz"
    and dv: "sz dvd unat (pitch m)" "sz dvd unat (pitch out)"
    and sep: "separate m out"
    and dims: "width out = height m" "height out = width m" "depth out = depth m"
    and v: "k < unat (depth m)" "r < unat (height m)" "c < unat (width m)"
  shows "Get sz out (Rotate sz m out mem) (of_nat (unat (width m) - 1 - c)) (of_nat r) (of_nat k)
         = Get sz m mem (of_nat r) (of_nat c) (of_nat k)"
  unfolding Rotate_def CudaRotate_def
  by (rule scatter_spec [where dr = "\<lambda>r c. unat (width m) - 1 - c" and dc = "\<lambda>r c. r",
        OF al sz0 dv sep _ _ _ v]) (auto simp: dims)

lemma FlipHorizontal_spec:
  assumes al: "allocated sz m" "allocated sz out" and sz0: "0 < sz"
    and dv: "sz dvd unat (pitch m)" "sz dvd unat (pitch out)"
    and sep: "separate m out"
    and dims: "width out = width m" "height out = height m" "depth out = depth m"
    and v: "k < unat (depth m)" "r < unat (height m)" "c < unat (width m)"
  shows "Get sz out (FlipHorizontal sz m out mem) (of_nat r) (of_nat (unat (width m) - 1 - c)) (of_nat k)
         = Get sz m mem (of_nat r) (of_nat c) (of_nat k)"
  unfolding FlipHorizontal_def CudaFlipHorizontal_def
  by (rule scatter_spec [where dr = "\<lambda>r c. r" and dc = "\<lambda>r c. unat (width m) - 1 - c",
        OF al sz0 dv sep _ _ _ v]) (auto simp: dims)

lemma Transpose_spec:
  assumes al: "allocated sz m" "allocated sz out" and sz0: "0 < sz"
    and dv: "sz dvd unat (pitch m)" "sz dvd unat (pitch out)"
    and sep: "separate m out"
    and dims: "width out = height m" "height out = width m" "depth out = depth m"
    and v: "k < unat (depth m)" "r < unat (height m)" "c < unat (width m)"
  shows "Get sz out (Transpose sz m out mem) (of_nat c) (of_nat r) (of_nat k)
         = Get sz m mem (of_nat r) (of_nat c) (of_nat k)"
  unfolding Transpose_def CudaTranspose_def
  by (rule scatter_spec [where dr = "\<lambda>r c. c" and dc = "\<lambda>r c. r",
        OF al sz0 dv sep _ _ _ v]) (auto simp: dims)


section \<open>The kernels at any pair of slice pointers\<close>

text \<open>
  What one kernel call leaves at a byte, whatever the two pointers it is given: a byte of
  the output element of \<open>(r, c)\<close> is the byte of the input element, and a byte outside
  the output slice is unchanged. The rows of a slice fit their pitch and the input and
  the output slice do not overlap.
\<close>

lemma row_range:
  fixes P W sz k c n base :: nat
  assumes "W * sz \<le> P" and "k < n" and "c < W"
  shows "base + k * P + c * sz + sz \<le> base + P * n"
proof -
  have "c * sz + sz = (c + 1) * sz" by simp
  also have "\<dots> \<le> W * sz" using assms(3) by (intro mult_le_mono1) simp
  finally have "k * P + c * sz + sz \<le> (k + 1) * P" using assms(1) by simp
  also have "\<dots> \<le> n * P" using assms(2) by (intro mult_le_mono1) simp
  finally show ?thesis by (simp add: mult.commute)
qed

lemma scatter_stores:
  fixes dr dc :: "nat \<Rightarrow> nat \<Rightarrow> nat"
  assumes fit_in: "W * sz \<le> PI" and fit_out: "WO * sz \<le> PO"
    and maps: "\<And>r c. r < H \<Longrightarrow> c < W \<Longrightarrow> dr r c < HO \<and> dc r c < WO"
    and apart: "inp + PI * H \<le> outp \<or> outp + PO * HO \<le> inp"
  shows "fold (\<lambda>(r, c). copy_elem sz (outp + dr r c * PO + dc r c * sz) (inp + r * PI + c * sz))
           (pixels W H) cur
       = fold (\<lambda>t mem. store mem (outp + dr (fst t) (snd t) * PO + dc (fst t) (snd t) * sz)
                          (load cur (inp + fst t * PI + snd t * sz) sz))
           (pixels W H) cur"
proof -
  let ?dst = "\<lambda>t. outp + dr (fst t) (snd t) * PO + dc (fst t) (snd t) * sz"
  let ?src = "\<lambda>t. inp + fst t * PI + snd t * sz"
  have ap: "?src t + sz \<le> ?dst t' \<or> ?dst t' + sz \<le> ?src t"
    if "t \<in> set (pixels W H)" "t' \<in> set (pixels W H)" for t t'
  proof -
    obtain r c r' c' where t: "t = (r, c)" "t' = (r', c')" by (metis surj_pair)
    from that have h: "r < H" "c < W" "r' < H" "c' < W" by (simp_all add: t set_pixels)
    from maps [OF h(3,4)] have b: "dr r' c' < HO" "dc r' c' < WO" by simp_all
    from row_range [OF fit_in h(1,2), of inp] row_range [OF fit_out b, of outp] apart
    show ?thesis unfolding t by auto
  qed
  have "fold (\<lambda>t. copy_elem sz (?dst t) (?src t)) (pixels W H) cur
      = fold (\<lambda>t m. store m (?dst t) (load cur (?src t) sz)) (pixels W H) cur"
    by (rule fold_copy_elem) (use ap in auto)
  then show ?thesis by (simp add: case_prod_unfold)
qed

lemma scatter_frame:
  fixes dr dc :: "nat \<Rightarrow> nat \<Rightarrow> nat"
  assumes fit_in: "W * sz \<le> PI" and fit_out: "WO * sz \<le> PO"
    and maps: "\<And>r c. r < H \<Longrightarrow> c < W \<Longrightarrow> dr r c < HO \<and> dc r c < WO"
    and apart: "inp + PI * H \<le> outp \<or> outp + PO * HO \<le> inp"
    and p: "p < outp \<or> outp + PO * HO \<le> p"
  shows "fold (\<lambda>(r, c). copy_elem sz (outp + dr r c * PO + dc r c * sz) (inp + r * PI + c * sz))
           (pixels W H) cur p = cur p"
proof -
  let ?dst = "\<lambda>t. outp + dr (fst t) (snd t) * PO + dc (fst t) (snd t) * sz"
  let ?val = "\<lambda>t. load cur (inp + fst t * PI + snd t * sz) sz"
  have "fold (\<lambda>t mem. store mem (?dst t) (?val t)) (pixels W H) cur p = cur p"
  proof (rule fold_store_outside)
    fix t assume "t \<in> set (pixels W H)"
    then obtain r c where t: "t = (r, c)" and h: "r < H" "c < W"
      by (auto simp: set_pixels)
    from maps [OF h] have b: "dr r c < HO" "dc r c < WO" by simp_all
    from row_range [OF fit_out b, of outp] p
    show "p < ?dst t \<or> ?dst t + length (?val t) \<le> p"
      unfolding t by (auto simp: length_load)
  qed
  then show ?thesis
    by (simp only: scatter_stores [where dr = dr and dc = dc, OF fit_in fit_out maps apart])
qed

lemma scatter_byte:
  fixes dr dc :: "nat \<Rightarrow> nat \<Rightarrow> nat"
  assumes fit_in: "W * sz \<le> PI" and fit_out: "WO * sz \<le> PO"
    and maps: "\<And>r c. r < H \<Longrightarrow> c < W \<Longrightarrow> dr r c < HO \<and> dc r c < WO"
    and apart: "inp + PI * H \<le> outp \<or> outp + PO * HO \<le> inp"
    and inj: "\<And>r c r' c'. r < H \<Longrightarrow> c < W \<Longrightarrow> r' < H \<Longrightarrow> c' < W \<Longrightarrow>
                 dr r c = dr r' c' \<Longrightarrow> dc r c = dc r' c' \<Longrightarrow> r = r' \<and> c = c'"
    and r0: "r0 < H" and c0: "c0 < W" and i: "i < sz"
  shows "fold (\<lambda>(r, c). copy_elem sz (outp + dr r c * PO + dc r c * sz) (inp + r * PI + c * sz))
           (pixels W H) cur (outp + dr r0 c0 * PO + dc r0 c0 * sz + i)
         = cur (inp + r0 * PI + c0 * sz + i)"
proof -
  let ?dst = "\<lambda>t. outp + dr (fst t) (snd t) * PO + dc (fst t) (snd t) * sz"
  let ?val = "\<lambda>t. load cur (inp + fst t * PI + snd t * sz) sz"
  have in0: "(r0, c0) \<in> set (pixels W H)" using r0 c0 by (simp add: set_pixels)
  have pw: "(?dst t = ?dst (r0, c0) \<and> ?val t = ?val (r0, c0))
           \<or> ?dst t + length (?val t) \<le> ?dst (r0, c0)
           \<or> ?dst (r0, c0) + length (?val (r0, c0)) \<le> ?dst t"
    if "t \<in> set (pixels W H)" for t
  proof -
    from that obtain r c where t: "t = (r, c)" and h: "r < H" "c < W"
      by (auto simp: set_pixels)
    from maps [OF h] maps [OF r0 c0]
    have b: "dr r c < HO" "dc r c < WO" "dr r0 c0 < HO" "dc r0 c0 < WO" by simp_all
    show ?thesis
    proof (cases "dr r c = dr r0 c0 \<and> dc r c = dc r0 c0")
      case True
      then have "r = r0 \<and> c = c0" using inj [OF h r0 c0] by simp
      then show ?thesis unfolding t by simp
    next
      case False
      then have "dr r c \<noteq> dr r0 c0 \<or> dc r c \<noteq> dc r0 c0" by simp
      from pitched_disjoint [OF fit_out b(2,4) this]
      show ?thesis unfolding t by (simp add: length_load mult.commute) linarith
    qed
  qed
  have "fold (\<lambda>t mem. store mem (?dst t) (?val t)) (pixels W H) cur (?dst (r0, c0) + i)
          = ?val (r0, c0) ! i"
    using in0 _ pw by (rule fold_store_inside) (simp add: length_load i)
  also have "\<dots> = cur (inp + r0 * PI + c0 * sz + i)" using i by (simp add: load_def)
  finally show ?thesis
    by (simp only: scatter_stores [where dr = dr and dc = dc, OF fit_in fit_out maps apart]
          fst_conv snd_conv)
qed

lemma CudaRotate_byte:
  assumes "unat w * sz \<le> unat pitch_input" and "unat h * sz \<le> unat pitch_output"
    and "input + unat pitch_input * unat h \<le> output
       \<or> output + unat pitch_output * unat w \<le> input"
    and "r < unat h" and "c < unat w" and "i < sz"
  shows "CudaRotate sz input output w h pitch_input pitch_output mem
           (output + (unat w - 1 - c) * unat pitch_output + r * sz + i)
         = mem (input + r * unat pitch_input + c * sz + i)"
  unfolding CudaRotate_def
  by (rule scatter_byte [where dr = "\<lambda>r c. unat w - 1 - c" and dc = "\<lambda>r c. r"
        and WO = "unat h" and HO = "unat w", OF assms(1,2) _ assms(3) _ assms(4,5,6)]) auto

lemma CudaRotate_frame:
  assumes "unat w * sz \<le> unat pitch_input" and "unat h * sz \<le> unat pitch_output"
    and "input + unat pitch_input * unat h \<le> output
       \<or> output + unat pitch_output * unat w \<le> input"
    and "p < output \<or> output + unat pitch_output * unat w \<le> p"
  shows "CudaRotate sz input output w h pitch_input pitch_output mem p = mem p"
  unfolding CudaRotate_def
  by (rule scatter_frame [where dr = "\<lambda>r c. unat w - 1 - c" and dc = "\<lambda>r c. r"
        and WO = "unat h" and HO = "unat w", OF assms(1,2) _ assms(3,4)]) auto

lemma CudaFlipHorizontal_byte:
  assumes "unat w * sz \<le> unat pitch_input" and "unat w * sz \<le> unat pitch_output"
    and "input + unat pitch_input * unat h \<le> output
       \<or> output + unat pitch_output * unat h \<le> input"
    and "r < unat h" and "c < unat w" and "i < sz"
  shows "CudaFlipHorizontal sz input output w h pitch_input pitch_output mem
           (output + r * unat pitch_output + (unat w - 1 - c) * sz + i)
         = mem (input + r * unat pitch_input + c * sz + i)"
  unfolding CudaFlipHorizontal_def
  by (rule scatter_byte [where dr = "\<lambda>r c. r" and dc = "\<lambda>r c. unat w - 1 - c"
        and WO = "unat w" and HO = "unat h", OF assms(1,2) _ assms(3) _ assms(4,5,6)]) auto

lemma CudaFlipHorizontal_frame:
  assumes "unat w * sz \<le> unat pitch_input" and "unat w * sz \<le> unat pitch_output"
    and "input + unat pitch_input * unat h \<le> output
       \<or> output + unat pitch_output * unat h \<le> input"
    and "p < output \<or> output + unat pitch_output * unat h \<le> p"
  shows "CudaFlipHorizontal sz input output w h pitch_input pitch_output mem p = mem p"
  unfolding CudaFlipHorizontal_def
  by (rule scatter_frame [where dr = "\<lambda>r c. r" and dc = "\<lambda>r c. unat w - 1 - c"
        and WO = "unat w" and HO = "unat h", OF assms(1,2) _ assms(3,4)]) auto

lemma CudaTranspose_byte:
  assumes "unat w * sz \<le> unat pitch_input" and "unat h * sz \<le> unat pitch_output"
    and "input + unat pitch_input * unat h \<le> output
       \<or> output + unat pitch_output * unat w \<le> input"
    and "r < unat h" and "c < unat w" and "i < sz"
  shows "CudaTranspose sz input output w h pitch_input pitch_output mem
           (output + c * unat pitch_output + r * sz + i)
         = mem (input + r * unat pitch_input + c * sz + i)"
  unfolding CudaTranspose_def
  by (rule scatter_byte [where dr = "\<lambda>r c. c" and dc = "\<lambda>r c. r"
        and WO = "unat h" and HO = "unat w", OF assms(1,2) _ assms(3) _ assms(4,5,6)]) auto

lemma CudaTranspose_frame:
  assumes "unat w * sz \<le> unat pitch_input" and "unat h * sz \<le> unat pitch_output"
    and "input + unat pitch_input * unat h \<le> output
       \<or> output + unat pitch_output * unat w \<le> input"
    and "p < output \<or> output + unat pitch_output * unat w \<le> p"
  shows "CudaTranspose sz input output w h pitch_input pitch_output mem p = mem p"
  unfolding CudaTranspose_def
  by (rule scatter_frame [where dr = "\<lambda>r c. c" and dc = "\<lambda>r c. r"
        and WO = "unat h" and HO = "unat w", OF assms(1,2) _ assms(3,4)]) auto

lemma load_3: "load mem a 3 = [mem a, mem (a + 1), mem (a + 2)]"
  by (simp add: load_def upt_rec)
section \<open>Threads and pixels of the random fill\<close>

lemma launch_product:
  "launch grid block =
     List.product (below (dim_y grid)) (List.product (below (dim_y block))
       (List.product (below (dim_x grid)) (below (dim_x block))))"
  by (simp add: launch_def product_concat_map map_concat comp_def)

lemma distinct_below: "distinct (below n)"
proof -
  have "inj_on (of_nat :: nat \<Rightarrow> uint) (set [0..<unat n])"
  proof (rule inj_onI)
    fix a b assume a: "a \<in> set [0..<unat n]" and b: "b \<in> set [0..<unat n]"
      and e: "(of_nat a :: uint) = of_nat b"
    have n: "unat n < 2 ^ 32" using unsigned_less [of n, where 'a = nat] by simp
    from a b have "a < unat n" "b < unat n" by simp_all
    with n have "a < 2 ^ 32" "b < 2 ^ 32" by simp_all
    then have u: "unat (of_nat a :: uint) = a" "unat (of_nat b :: uint) = b"
      by (simp_all add: unat_of_nat)
    from e have "unat (of_nat a :: uint) = unat (of_nat b :: uint)" by (rule arg_cong)
    then show "a = b" unfolding u .
  qed
  then show ?thesis by (simp add: below_def distinct_map)
qed

lemma distinct_launch: "distinct (launch grid block)"
  by (simp add: launch_product distinct_product distinct_below)

lemma block_index_unat:
  fixes b t B g :: uint
  assumes t: "t < B" and b: "b < g" and B: "unat B = K" and g: "unat g * K \<le> 2 ^ 32"
  shows "unat (ucast (b * B + t) :: size_t) = unat b * K + unat t"
proof -
  have ut: "unat t < K" using t B by (simp add: word_less_nat_alt)
  have "unat b + 1 \<le> unat g" using b by (simp add: word_less_nat_alt)
  then have "(unat b + 1) * K \<le> unat g * K" by (rule mult_le_mono1)
  then have lt: "unat b * K + unat t < 2 ^ 32" using ut g by simp
  then have "unat b * unat B < 2 ^ LENGTH(32)" using B by simp
  then have m: "unat (b * B) = unat b * K" using B by (simp add: unat_mult_lem [THEN iffD1])
  have "unat (b * B) + unat t < 2 ^ LENGTH(32)" using lt m by simp
  then have "unat (b * B + t) = unat b * K + unat t"
    using m by (simp add: unat_add_lem [THEN iffD1])
  moreover have "unat (ucast (b * B + t) :: size_t) = unat (b * B + t)"
  proof -
    have "unat (b * B + t) < 2 ^ 64"
      using unsigned_less [of "b * B + t", where 'a = nat] by simp
    then show ?thesis by (simp add: unsigned_ucast_eq take_bit_eq_mod)
  qed
  ultimately show ?thesis by simp
qed

lemma configured_dims:
  assumes cfg: "configured m"
    and b: "unat (width m) \<le> 2 ^ 32" "unat (height m) \<le> 2 ^ 32"
  shows "dim_x (blockSize m) = 32" "dim_y (blockSize m) = 16"
    "unat (dim_x (gridSize m)) = (unat (width m) + 31) div 32"
    "unat (dim_y (gridSize m)) = (unat (height m) + 15) div 16"
proof -
  show "dim_x (blockSize m) = 32" "dim_y (blockSize m) = 16"
    using cfg by (simp_all add: configured_def ComputeCudaConfig_def kBlockDimX_def kBlockDimY_def)
  have "dim_x (gridSize m) = ucast ((width m - 1) div kBlockDimX + 1)"
    using cfg by (simp add: configured_def ComputeCudaConfig_def)
  then have "unat (dim_x (gridSize m)) = ((unat (width m) + 31) div 32) mod 2 ^ 32"
    by (simp only: grid_extent_x)
  moreover have "(unat (width m) + 31) div 32 < 2 ^ 32" using b(1) by simp
  ultimately show "unat (dim_x (gridSize m)) = (unat (width m) + 31) div 32" by simp
  have "dim_y (gridSize m) = ucast ((height m - 1) div kBlockDimY + 1)"
    using cfg by (simp add: configured_def ComputeCudaConfig_def)
  then have "unat (dim_y (gridSize m)) = ((unat (height m) + 15) div 16) mod 2 ^ 32"
    by (simp only: grid_extent_y)
  moreover have "(unat (height m) + 15) div 16 < 2 ^ 32" using b(2) by simp
  ultimately show "unat (dim_y (gridSize m)) = (unat (height m) + 15) div 16" by simp
qed

lemma thread_pixel_inj:
  assumes cfg: "configured m"
    and b: "unat (width m) \<le> 2 ^ 32" "unat (height m) \<le> 2 ^ 32"
    and t: "t \<in> set (launch (gridSize m) (blockSize m))"
    and t': "t' \<in> set (launch (gridSize m) (blockSize m))"
    and e: "thread_row (blockSize m) t = thread_row (blockSize m) t'"
           "thread_col (blockSize m) t = thread_col (blockSize m) t'"
  shows "t = t'"
proof -
  note d = configured_dims [OF cfg b]
  obtain yb yt xb xt where T: "t = (yb, yt, xb, xt)" by (metis prod_cases4)
  obtain yb' yt' xb' xt' where T': "t' = (yb', yt', xb', xt')" by (metis prod_cases4)
  from t t' have in1: "yb < dim_y (gridSize m)" "yt < dim_y (blockSize m)"
      "xb < dim_x (gridSize m)" "xt < dim_x (blockSize m)"
    and in2: "yb' < dim_y (gridSize m)" "yt' < dim_y (blockSize m)"
      "xb' < dim_x (gridSize m)" "xt' < dim_x (blockSize m)"
    unfolding T T' set_launch by simp_all
  have By: "unat (dim_y (blockSize m)) = 16" and Bx: "unat (dim_x (blockSize m)) = 32"
    using d(1,2) by simp_all
  have gy: "unat (dim_y (gridSize m)) * 16 \<le> 2 ^ 32" unfolding d(4) using b(2) by simp
  have gx: "unat (dim_x (gridSize m)) * 32 \<le> 2 ^ 32" unfolding d(3) using b(1) by simp
  have r: "unat (thread_row (blockSize m) t) = unat yb * 16 + unat yt"
    "unat (thread_row (blockSize m) t') = unat yb' * 16 + unat yt'"
    unfolding T T' thread_row_def prod.case
    by (rule block_index_unat [OF _ _ By gy]; fact)+
  have c: "unat (thread_col (blockSize m) t) = unat xb * 32 + unat xt"
    "unat (thread_col (blockSize m) t') = unat xb' * 32 + unat xt'"
    unfolding T T' thread_col_def prod.case
    by (rule block_index_unat [OF _ _ Bx gx]; fact)+
  have ty: "unat yt < 16" "unat yt' < 16" and tx: "unat xt < 32" "unat xt' < 32"
    using in1(2,4) in2(2,4) d(1,2) by (simp_all add: word_less_nat_alt)
  from e(1) r have "unat yb * 16 + unat yt = unat yb' * 16 + unat yt'" by simp
  from row_index_inj [OF ty this] have 1: "yb = yb'" "yt = yt'"
    by (simp_all add: word_unat_eq_iff)
  from e(2) c have "unat xb * 32 + unat xt = unat xb' * 32 + unat xt'" by simp
  from row_index_inj [OF tx this] have 2: "xb = xb'" "xt = xt'"
    by (simp_all add: word_unat_eq_iff)
  from 1 2 show ?thesis unfolding T T' by simp
qed

lemma draw_frame:
  assumes lenV: "\<And>u. length (scale u) = sz"
    and out: "\<And>k. k \<in> set ks \<Longrightarrow>
               p < elem_addr sz m row col (of_nat k) \<or> elem_addr sz m row col (of_nat k) + sz \<le> p"
  shows "snd (draw g scale sz m row col ks (s, mem)) p = mem p"
  using out
proof (induction ks arbitrary: s mem)
  case Nil
  then show ?case by simp
next
  case (Cons k ks)
  obtain u s' where gs: "g s = (u, s')" by (cases "g s")
  have "snd (draw g scale sz m row col ks (s', Set sz m row col (of_nat k) (scale u) mem)) p
        = Set sz m row col (of_nat k) (scale u) mem p"
    by (rule Cons.IH) (simp add: Cons.prems)
  also have "\<dots> = mem p"
    using Cons.prems [of k] lenV [of u] by (auto simp: Set_def store_def)
  finally show ?case by (simp add: gs)
qed

lemma draw_values:
  assumes al: "allocated sz m" and lenV: "\<And>u. length (scale u) = sz"
    and v: "row < height m" "col < width m"
    and ks: "distinct ks" "\<And>k. k \<in> set ks \<Longrightarrow> k < unat (depth m)"
    and i: "i < length ks"
  shows "load (snd (draw g scale sz m row col ks (s, mem)))
              (elem_addr sz m row col (of_nat (ks ! i))) sz
         = scale (fst (g (((\<lambda>s. snd (g s)) ^^ i) s)))"
  using ks i
proof (induction ks arbitrary: s mem i)
  case Nil
  then show ?case by simp
next
  case (Cons k ks)
  obtain u s' where gs: "g s = (u, s')" by (cases "g s")
  let ?mem1 = "Set sz m row col (of_nat k) (scale u) mem"
  have step: "draw g scale sz m row col (k # ks) (s, mem) = draw g scale sz m row col ks (s', ?mem1)"
    by (simp add: gs)
  have kd: "k < unat (depth m)" using Cons.prems(2) by simp
  show ?case
  proof (cases i)
    case 0
    have "load (snd (draw g scale sz m row col ks (s', ?mem1))) (elem_addr sz m row col (of_nat k)) sz
          = load ?mem1 (elem_addr sz m row col (of_nat k)) sz"
    proof (rule load_cong)
      fix j assume j: "j < sz"
      show "snd (draw g scale sz m row col ks (s', ?mem1)) (elem_addr sz m row col (of_nat k) + j)
            = ?mem1 (elem_addr sz m row col (of_nat k) + j)"
      proof (rule draw_frame [OF lenV])
        fix k' assume k': "k' \<in> set ks"
        then have k'd: "k' < unat (depth m)" and ne: "k' \<noteq> k"
          using Cons.prems(1,2) by auto
        have "(of_nat k' :: size_t) \<noteq> of_nat k"
          using of_nat_less_depth(2) [OF k'd] of_nat_less_depth(2) [OF kd] ne by metis
        then have "(row, col, (of_nat k' :: size_t)) \<noteq> (row, col, of_nat k)" by simp
        from elem_disjoint [OF al v of_nat_less_depth(1) [OF kd] v of_nat_less_depth(1) [OF k'd] this]
        show "elem_addr sz m row col (of_nat k) + j < elem_addr sz m row col (of_nat k')
            \<or> elem_addr sz m row col (of_nat k') + sz \<le> elem_addr sz m row col (of_nat k) + j"
          using j by linarith
      qed
    qed
    also have "\<dots> = scale u"
      using load_store_same [of mem "elem_addr sz m row col (of_nat k)" "scale u"] lenV [of u]
      by (simp add: Set_def)
    finally show ?thesis using 0 by (simp add: step gs)
  next
    case (Suc j)
    then have j: "j < length ks" using Cons.prems(3) by simp
    have "load (snd (draw g scale sz m row col ks (s', ?mem1)))
              (elem_addr sz m row col (of_nat (ks ! j))) sz
         = scale (fst (g (((\<lambda>s. snd (g s)) ^^ j) s')))"
      using Cons.prems(1,2) j by (intro Cons.IH) simp_all
    moreover have "((\<lambda>s. snd (g s)) ^^ j) s' = ((\<lambda>s. snd (g s)) ^^ Suc j) s"
    proof -
      have "s' = (\<lambda>s. snd (g s)) s" by (simp add: gs)
      then show ?thesis by (simp only: funpow_Suc_right comp_apply)
    qed
    ultimately show ?thesis using Suc by (simp only: step nth_Cons_Suc)
  qed
qed

lemma funpow_length:
  fixes f :: "'a list \<Rightarrow> 'a list"
  assumes "\<And>s. length s = n \<Longrightarrow> length (f s) = n" and "length s = n"
  shows "length ((f ^^ k) s) = n"
proof (induction k)
  case 0
  show ?case using assms(2) by simp
next
  case (Suc k)
  then show ?case using assms(1) by simp
qed

lemma fold_frame:
  assumes "\<And>t mem. t \<in> set ts \<Longrightarrow> F t mem p = mem p"
  shows "fold F ts mem p = mem p"
  using assms by (induction ts arbitrary: mem) simp_all

lemma state_in_pixel:
  "i < ssz \<Longrightarrow> elem_addr ssz rs row col 0 + i \<in> pixel_bytes sz ssz m rs row col"
  by (simp add: pixel_bytes_def)

lemma value_in_pixel:
  "k < unat (depth m) \<Longrightarrow> i < sz \<Longrightarrow>
     elem_addr sz m row col (of_nat k) + i \<in> pixel_bytes sz ssz m rs row col"
  by (auto simp: pixel_bytes_def)

lemma pixel_disjoint:
  assumes al: "allocated sz m" and alr: "allocated ssz rs" and sep: "separate m rs"
    and dr: "width m \<le> width rs" "height m \<le> height rs" "0 < depth rs"
    and v: "row < height m" "col < width m" and v0: "row0 < height m" "col0 < width m"
    and ne: "(row, col) \<noteq> (row0, col0)"
    and p: "p \<in> pixel_bytes sz ssz m rs row0 col0"
  shows "p \<notin> pixel_bytes sz ssz m rs row col"
proof
  assume q: "p \<in> pixel_bytes sz ssz m rs row col"
  have vr: "row < height rs" "col < width rs" "row0 < height rs" "col0 < width rs"
    using v v0 dr by simp_all
  have ss: "elem_addr ssz rs row col 0 + ssz \<le> elem_addr ssz rs row0 col0 0
          \<or> elem_addr ssz rs row0 col0 0 + ssz \<le> elem_addr ssz rs row col 0"
  proof -
    have "(row, col, (0 :: size_t)) \<noteq> (row0, col0, 0)" using ne by auto
    from elem_disjoint [OF alr vr(3,4) dr(3) vr(1,2) dr(3) this] show ?thesis .
  qed
  have oo: "elem_addr sz m row col (of_nat k) + sz \<le> elem_addr sz m row0 col0 (of_nat k0)
          \<or> elem_addr sz m row0 col0 (of_nat k0) + sz \<le> elem_addr sz m row col (of_nat k)"
    if "k < unat (depth m)" "k0 < unat (depth m)" for k k0
  proof -
    have "(row, col, (of_nat k :: size_t)) \<noteq> (row0, col0, of_nat k0)" using ne by auto
    from elem_disjoint [OF al v0 of_nat_less_depth(1) [OF that(2)] v of_nat_less_depth(1) [OF that(1)] this]
    show ?thesis .
  qed
  have os: "elem_addr sz m r c (of_nat k) + sz \<le> elem_addr ssz rs r' c' 0
          \<or> elem_addr ssz rs r' c' 0 + ssz \<le> elem_addr sz m r c (of_nat k)"
    if "k < unat (depth m)" "r < height m" "c < width m" "r' < height rs" "c' < width rs"
    for k r c r' c'
  proof -
    have f: "array_ptr m \<le> elem_addr sz m r c (of_nat k)"
      "elem_addr sz m r c (of_nat k) + sz \<le> array_ptr m + footprint m"
      using elem_in_footprint [OF al that(2,3) of_nat_less_depth(1) [OF that(1)]] by simp_all
    have g: "array_ptr rs \<le> elem_addr ssz rs r' c' 0"
      "elem_addr ssz rs r' c' 0 + ssz \<le> array_ptr rs + footprint rs"
      using elem_in_footprint [OF alr that(4,5) dr(3)] by simp_all
    from sep f g show ?thesis unfolding separate_def by linarith
  qed
  from p consider
      (val0) k0 where "k0 < unat (depth m)" "elem_addr sz m row0 col0 (of_nat k0) \<le> p"
        "p < elem_addr sz m row0 col0 (of_nat k0) + sz"
    | (st0) "elem_addr ssz rs row0 col0 0 \<le> p" "p < elem_addr ssz rs row0 col0 0 + ssz"
    unfolding pixel_bytes_def by blast
  then show False
  proof cases
    case val0
    from q consider
        (val) k where "k < unat (depth m)" "elem_addr sz m row col (of_nat k) \<le> p"
          "p < elem_addr sz m row col (of_nat k) + sz"
      | (st) "elem_addr ssz rs row col 0 \<le> p" "p < elem_addr ssz rs row col 0 + ssz"
      unfolding pixel_bytes_def by blast
    then show False
    proof cases
      case val
      from oo [OF val(1) val0(1)] val(2,3) val0(2,3) show False by linarith
    next
      case st
      from os [OF val0(1) v0 vr(1,2)] st val0(2,3) show False by linarith
    qed
  next
    case st0
    from q consider
        (val) k where "k < unat (depth m)" "elem_addr sz m row col (of_nat k) \<le> p"
          "p < elem_addr sz m row col (of_nat k) + sz"
      | (st) "elem_addr ssz rs row col 0 \<le> p" "p < elem_addr ssz rs row col 0 + ssz"
      unfolding pixel_bytes_def by blast
    then show False
    proof cases
      case val
      from os [OF val(1) v vr(3,4)] st0 val(2,3) show False by linarith
    next
      case st
      from ss st st0 show False by linarith
    qed
  qed
qed

lemma Get_Set_same:
  "length v = sz \<Longrightarrow> Get sz m (Set sz m row col sl v mem) row col sl = v"
  using load_store_same [of mem "elem_addr sz m row col sl" v] by (simp add: Get_def Set_def)

lemma kernel_unfold:
  assumes v: "thread_row bd t < height m" "thread_col bd t < width m"
  shows "FillWithRandomNumbersKernel g scale sz ssz m rs bd t mem
       = Set ssz rs (thread_row bd t) (thread_col bd t) 0
           (((\<lambda>s. snd (g s)) ^^ unat (depth m))
              (Get ssz rs mem (thread_row bd t) (thread_col bd t) 0))
           (snd (draw g scale sz m (thread_row bd t) (thread_col bd t) [0..<unat (depth m)]
                  (Get ssz rs mem (thread_row bd t) (thread_col bd t) 0, mem)))"
proof -
  let ?row = "thread_row bd t" and ?col = "thread_col bd t"
  let ?d = "draw g scale sz m ?row ?col [0..<unat (depth m)] (Get ssz rs mem ?row ?col 0, mem)"
  have "fst ?d = ((\<lambda>s. snd (g s)) ^^ unat (depth m)) (Get ssz rs mem ?row ?col 0)"
    using draw_state [of g scale sz m ?row ?col "[0..<unat (depth m)]"] by simp
  then show ?thesis
    using v by (simp add: FillWithRandomNumbersKernel_def Let_def case_prod_unfold)
qed

lemma kernel_skip:
  assumes "\<not> (thread_row bd t < height m \<and> thread_col bd t < width m)"
  shows "FillWithRandomNumbersKernel g scale sz ssz m rs bd t mem = mem"
  using assms by (auto simp: FillWithRandomNumbersKernel_def Let_def)

lemma state_length:
  fixes g :: "elem \<Rightarrow> 'u \<times> elem"
  assumes lenS: "\<And>s. length s = ssz \<Longrightarrow> length (snd (g s)) = ssz"
  shows "length (((\<lambda>s. snd (g s)) ^^ n) (Get ssz rs mem row col 0)) = ssz"
  by (rule funpow_length [where f = "\<lambda>s. snd (g s)"]) (simp_all add: lenS Get_def length_load)

lemma kernel_frame:
  fixes g :: "elem \<Rightarrow> 'u \<times> elem"
  assumes lenV: "\<And>u. length (scale u) = sz"
    and lenS: "\<And>s. length s = ssz \<Longrightarrow> length (snd (g s)) = ssz"
    and p: "p \<notin> pixel_bytes sz ssz m rs (thread_row bd t) (thread_col bd t)"
  shows "FillWithRandomNumbersKernel g scale sz ssz m rs bd t mem p = mem p"
proof (cases "thread_row bd t < height m \<and> thread_col bd t < width m")
  case False
  then show ?thesis by (simp add: kernel_skip)
next
  case True
  let ?row = "thread_row bd t" and ?col = "thread_col bd t"
  let ?s0 = "Get ssz rs mem ?row ?col 0"
  let ?ls = "((\<lambda>s. snd (g s)) ^^ unat (depth m)) ?s0"
  let ?mem' = "snd (draw g scale sz m ?row ?col [0..<unat (depth m)] (?s0, mem))"
  have l: "length ?ls = ssz" by (rule state_length [OF lenS])
  from p have "\<not> (elem_addr ssz rs ?row ?col 0 \<le> p \<and> p < elem_addr ssz rs ?row ?col 0 + ssz)"
    unfolding pixel_bytes_def by blast
  then have ps: "p < elem_addr ssz rs ?row ?col 0 \<or> elem_addr ssz rs ?row ?col 0 + ssz \<le> p"
    by linarith
  have pv: "p < elem_addr sz m ?row ?col (of_nat k) \<or> elem_addr sz m ?row ?col (of_nat k) + sz \<le> p"
    if "k < unat (depth m)" for k
  proof -
    from p that have "\<not> (elem_addr sz m ?row ?col (of_nat k) \<le> p
                        \<and> p < elem_addr sz m ?row ?col (of_nat k) + sz)"
      unfolding pixel_bytes_def by blast
    then show ?thesis by linarith
  qed
  have "Set ssz rs ?row ?col 0 ?ls ?mem' p = ?mem' p"
    using ps l by (auto simp: Set_def store_def)
  also have "\<dots> = mem p"
    by (rule draw_frame [OF lenV]) (use pv in simp)
  finally show ?thesis using True by (simp add: kernel_unfold)
qed

lemma kernel_result:
  fixes g :: "elem \<Rightarrow> 'u \<times> elem"
  assumes al: "allocated sz m" and alr: "allocated ssz rs" and sep: "separate m rs"
    and dr: "width m \<le> width rs" "height m \<le> height rs" "0 < depth rs"
    and lenV: "\<And>u. length (scale u) = sz"
    and lenS: "\<And>s. length s = ssz \<Longrightarrow> length (snd (g s)) = ssz"
    and v: "thread_row bd t < height m" "thread_col bd t < width m"
  shows "Get ssz rs (FillWithRandomNumbersKernel g scale sz ssz m rs bd t mem)
           (thread_row bd t) (thread_col bd t) 0
         = ((\<lambda>s. snd (g s)) ^^ unat (depth m)) (Get ssz rs mem (thread_row bd t) (thread_col bd t) 0)
       \<and> (\<forall>k < unat (depth m).
         Get sz m (FillWithRandomNumbersKernel g scale sz ssz m rs bd t mem)
           (thread_row bd t) (thread_col bd t) (of_nat k)
         = scale (fst (g (((\<lambda>s. snd (g s)) ^^ k)
                      (Get ssz rs mem (thread_row bd t) (thread_col bd t) 0)))))"
proof (intro conjI allI impI)
  let ?row = "thread_row bd t" and ?col = "thread_col bd t"
  let ?s0 = "Get ssz rs mem ?row ?col 0"
  let ?ls = "((\<lambda>s. snd (g s)) ^^ unat (depth m)) ?s0"
  let ?mem' = "snd (draw g scale sz m ?row ?col [0..<unat (depth m)] (?s0, mem))"
  have l: "length ?ls = ssz" by (rule state_length [OF lenS])
  have K: "FillWithRandomNumbersKernel g scale sz ssz m rs bd t mem = Set ssz rs ?row ?col 0 ?ls ?mem'"
    by (rule kernel_unfold [OF v])
  show "Get ssz rs (FillWithRandomNumbersKernel g scale sz ssz m rs bd t mem) ?row ?col 0 = ?ls"
    unfolding K using l by (rule Get_Set_same)
next
  fix k assume k: "k < unat (depth m)"
  let ?row = "thread_row bd t" and ?col = "thread_col bd t"
  let ?s0 = "Get ssz rs mem ?row ?col 0"
  let ?ls = "((\<lambda>s. snd (g s)) ^^ unat (depth m)) ?s0"
  let ?mem' = "snd (draw g scale sz m ?row ?col [0..<unat (depth m)] (?s0, mem))"
  have l: "length ?ls = ssz" by (rule state_length [OF lenS])
  have K: "FillWithRandomNumbersKernel g scale sz ssz m rs bd t mem = Set ssz rs ?row ?col 0 ?ls ?mem'"
    by (rule kernel_unfold [OF v])
  have vr: "?row < height rs" "?col < width rs" using v dr by simp_all
  have f: "array_ptr m \<le> elem_addr sz m ?row ?col (of_nat k)"
    "elem_addr sz m ?row ?col (of_nat k) + sz \<le> array_ptr m + footprint m"
    using elem_in_footprint [OF al v of_nat_less_depth(1) [OF k]] by simp_all
  have h: "array_ptr rs \<le> elem_addr ssz rs ?row ?col 0"
    "elem_addr ssz rs ?row ?col 0 + ssz \<le> array_ptr rs + footprint rs"
    using elem_in_footprint [OF alr vr dr(3)] by simp_all
  from sep f h have "elem_addr sz m ?row ?col (of_nat k) + sz \<le> elem_addr ssz rs ?row ?col 0
      \<or> elem_addr ssz rs ?row ?col 0 + length ?ls \<le> elem_addr sz m ?row ?col (of_nat k)"
    unfolding separate_def l by linarith
  then have "Get sz m (Set ssz rs ?row ?col 0 ?ls ?mem') ?row ?col (of_nat k)
        = load ?mem' (elem_addr sz m ?row ?col (of_nat k)) sz"
    unfolding Get_def Set_def by (rule load_store_disjoint)
  also have "\<dots> = scale (fst (g (((\<lambda>s. snd (g s)) ^^ k) ?s0)))"
    using draw_values [OF al lenV v, where ks = "[0..<unat (depth m)]" and i = k and g = g
        and s = ?s0 and mem = mem] k by simp
  finally show "Get sz m (FillWithRandomNumbersKernel g scale sz ssz m rs bd t mem) ?row ?col (of_nat k)
         = scale (fst (g (((\<lambda>s. snd (g s)) ^^ k) ?s0)))"
    unfolding K .
qed

section \<open>C1: addressing, \<open>Get\<close> after \<open>Set\<close>\<close>

text \<open>
  C1. For an allocated array (the rows fit into the pitch, \<open>pitch >= width * sizeof(T)\<close>,
  and the footprint is addressable) and valid coordinates \<open>row < height\<close>,
  \<open>col < width\<close>, \<open>slice < depth\<close>: the element is stored at byte offset
  \<open>slice * height * pitch + row * pitch + col * sizeof(T)\<close> from the base pointer; \<open>Get\<close>
  after \<open>Set\<close> at the same coordinates returns the value written; \<open>Get\<close> at every other
  valid coordinate returns what it returned before the \<open>Set\<close>.
\<close>

theorem get_set_addressing:
  assumes al: "allocated sz m"
    and v: "row < height m" "col < width m" "sl < depth m"
    and len: "length v = sz"
  shows "elem_addr sz m row col sl =
           array_ptr m + (unat sl * unat (height m) * unat (pitch m)
             + unat row * unat (pitch m) + unat col * sz)
       \<and> Get sz m (Set sz m row col sl v mem) row col sl = v
       \<and> (\<forall>row' col' sl'. row' < height m \<and> col' < width m \<and> sl' < depth m
             \<and> (row', col', sl') \<noteq> (row, col, sl)
           \<longrightarrow> Get sz m (Set sz m row col sl v mem) row' col' sl' = Get sz m mem row' col' sl')"
proof (intro conjI allI impI)
  show "elem_addr sz m row col sl =
           array_ptr m + (unat sl * unat (height m) * unat (pitch m)
             + unat row * unat (pitch m) + unat col * sz)"
    by (simp add: elem_addr_nat [OF al v(1) v(3)] algebra_simps)
next
  show "Get sz m (Set sz m row col sl v mem) row col sl = v"
    using load_store_same [of mem "elem_addr sz m row col sl" v] len
    by (simp add: Get_def Set_def)
next
  fix row' col' sl'
  assume h: "row' < height m \<and> col' < width m \<and> sl' < depth m
             \<and> (row', col', sl') \<noteq> (row, col, sl)"
  then have "elem_addr sz m row' col' sl' + sz \<le> elem_addr sz m row col sl \<or>
         elem_addr sz m row col sl + sz \<le> elem_addr sz m row' col' sl'"
    using elem_disjoint [OF al v] by blast
  then show "Get sz m (Set sz m row col sl v mem) row' col' sl' = Get sz m mem row' col' sl'"
    unfolding Get_def Set_def using len by (intro load_store_disjoint) simp
qed

theorem get_set_addressing_witness:
  "allocated 4 \<lparr> array_ptr = 0, pitch = 8, width = 2, height = 2, depth = 2,
       blockSize = \<lparr> dim_x = 32, dim_y = 16, dim_z = 1 \<rparr>,
       gridSize = \<lparr> dim_x = 1, dim_y = 1, dim_z = 1 \<rparr> \<rparr>
   \<and> elem_addr 4 \<lparr> array_ptr = 0, pitch = 8, width = 2, height = 2, depth = 2,
       blockSize = \<lparr> dim_x = 32, dim_y = 16, dim_z = 1 \<rparr>,
       gridSize = \<lparr> dim_x = 1, dim_y = 1, dim_z = 1 \<rparr> \<rparr> 1 1 1 = 28
   \<and> Get 4 \<lparr> array_ptr = 0, pitch = 8, width = 2, height = 2, depth = 2,
       blockSize = \<lparr> dim_x = 32, dim_y = 16, dim_z = 1 \<rparr>,
       gridSize = \<lparr> dim_x = 1, dim_y = 1, dim_z = 1 \<rparr> \<rparr>
       (Set 4 \<lparr> array_ptr = 0, pitch = 8, width = 2, height = 2, depth = 2,
       blockSize = \<lparr> dim_x = 32, dim_y = 16, dim_z = 1 \<rparr>,
       gridSize = \<lparr> dim_x = 1, dim_y = 1, dim_z = 1 \<rparr> \<rparr> 1 1 1 [1, 2, 3, 4] (\<lambda>p. 0)) 1 1 1 = [1, 2, 3, 4]
   \<and> Get 4 \<lparr> array_ptr = 0, pitch = 8, width = 2, height = 2, depth = 2,
       blockSize = \<lparr> dim_x = 32, dim_y = 16, dim_z = 1 \<rparr>,
       gridSize = \<lparr> dim_x = 1, dim_y = 1, dim_z = 1 \<rparr> \<rparr>
       (Set 4 \<lparr> array_ptr = 0, pitch = 8, width = 2, height = 2, depth = 2,
       blockSize = \<lparr> dim_x = 32, dim_y = 16, dim_z = 1 \<rparr>,
       gridSize = \<lparr> dim_x = 1, dim_y = 1, dim_z = 1 \<rparr> \<rparr> 1 1 1 [1, 2, 3, 4] (\<lambda>p. 0)) 0 1 1 = [0, 0, 0, 0]"
proof -
  let ?m = "\<lparr> array_ptr = 0, pitch = 8, width = 2, height = 2, depth = 2,
       blockSize = \<lparr> dim_x = 32, dim_y = 16, dim_z = 1 \<rparr>,
       gridSize = \<lparr> dim_x = 1, dim_y = 1, dim_z = 1 \<rparr> \<rparr>"
  have al: "allocated 4 ?m" by (simp add: allocated_def)
  have v: "(1 :: size_t) < height ?m" "(1 :: size_t) < width ?m" "(1 :: size_t) < depth ?m"
    by simp_all
  have len: "length [1, 2, 3, 4 :: byte] = 4" by simp
  have old: "Get 4 ?m (\<lambda>p. 0) 0 1 1 = [0, 0, 0, 0]"
    by (simp add: Get_def load_def upt_rec)
  from get_set_addressing [OF al v len, of "\<lambda>p. 0"] al old
  show ?thesis by simp
qed

section \<open>C2: the bytes \<open>Read\<close> takes from the file\<close>




section \<open>C3: \<open>FillWithScalar\<close>\<close>

lemma FillWithScalar_bytes:
  "FillWithScalar sz m v mem p =
     (if array_ptr m \<le> p \<and> p < array_ptr m + unat (width m * height m * depth m * of_nat sz)
      then of_int v else mem p)"
  by (auto simp: FillWithScalar_def cudaMemset_def store_def)

text \<open>With one-byte elements and rows without padding the fill reaches every element.\<close>

lemma FillWithScalar_packed:
  assumes al: "allocated 1 m" and tight: "unat (pitch m) = unat (width m)"
    and v: "row < height m" "col < width m" "sl < depth m"
  shows "Get 1 m (FillWithScalar 1 m x mem) row col sl = [of_int x]"
proof -
  let ?W = "unat (width m)" and ?H = "unat (height m)" and ?D = "unat (depth m)"
  have fit: "?W * ?H * ?D < 2 ^ 64" using al tight by (simp add: allocated_def)
  have u: "unat row < ?H" "unat col < ?W" "unat sl < ?D"
    using v by (simp_all add: word_less_nat_alt)
  have "?W * ?H \<le> ?W * ?H * ?D" using u(3) by simp
  then have wh: "unat (width m * height m) = ?W * ?H"
    using fit by (intro unat_mult_words) (rule le_less_trans)
  then have whd: "unat (width m * height m * depth m) = ?W * ?H * ?D"
    using fit by (simp add: unat_mult_words)
  have a: "elem_addr 1 m row col sl = array_ptr m + (?W * (unat sl * ?H + unat row) + unat col)"
    using elem_addr_nat [OF al v(1,3), of col] tight by simp
  have "unat sl * ?H + unat row < ?D * ?H" using u(3,1) by (rule row_byte_index)
  then have "unat sl * ?H + unat row + 1 \<le> ?D * ?H" by simp
  then have "?W * (unat sl * ?H + unat row + 1) \<le> ?W * (?D * ?H)" by (rule mult_le_mono2)
  moreover have "?W * (unat sl * ?H + unat row) + unat col < ?W * (unat sl * ?H + unat row + 1)"
    using u(2) by simp
  ultimately have "?W * (unat sl * ?H + unat row) + unat col < ?W * ?H * ?D"
    by (simp add: mult_ac)
  then show ?thesis
    using a by (simp add: Get_def load_def FillWithScalar_bytes whd)
qed

text \<open>
  C3. The claim: \<open>FillWithScalar(value)\<close> sets every byte of the footprint of
  \<open>pitch * height * depth\<close> bytes, and for a one-byte element type every valid element
  is \<open>value\<close> afterwards. The code fills the first \<open>width * height * depth * sizeof(T)\<close>
  bytes only. For a \<open>1 \<times> 2 \<times> 1\<close> array of one-byte elements with a pitch of 512 bytes in
  zeroed memory, \<open>FillWithScalar(7)\<close> writes the bytes 0 and 1: element \<open>(0, 0, 0)\<close> is 7,
  element \<open>(1, 0, 0)\<close>, at byte 512, is still 0.
\<close>

theorem FillWithScalar_leaves_second_row:
  "Get 1 \<lparr> array_ptr = 0, pitch = 512, width = 1, height = 2, depth = 1,
       blockSize = \<lparr> dim_x = 32, dim_y = 16, dim_z = 1 \<rparr>,
       gridSize = \<lparr> dim_x = 1, dim_y = 1, dim_z = 1 \<rparr> \<rparr>
     (FillWithScalar 1 \<lparr> array_ptr = 0, pitch = 512, width = 1, height = 2, depth = 1,
       blockSize = \<lparr> dim_x = 32, dim_y = 16, dim_z = 1 \<rparr>,
       gridSize = \<lparr> dim_x = 1, dim_y = 1, dim_z = 1 \<rparr> \<rparr> 7 (\<lambda>p. 0)) 1 0 0 = [0]
   \<and> Get 1 \<lparr> array_ptr = 0, pitch = 512, width = 1, height = 2, depth = 1,
       blockSize = \<lparr> dim_x = 32, dim_y = 16, dim_z = 1 \<rparr>,
       gridSize = \<lparr> dim_x = 1, dim_y = 1, dim_z = 1 \<rparr> \<rparr>
     (FillWithScalar 1 \<lparr> array_ptr = 0, pitch = 512, width = 1, height = 2, depth = 1,
       blockSize = \<lparr> dim_x = 32, dim_y = 16, dim_z = 1 \<rparr>,
       gridSize = \<lparr> dim_x = 1, dim_y = 1, dim_z = 1 \<rparr> \<rparr> 7 (\<lambda>p. 0)) 0 0 0 = [7]"
  by (simp add: Get_def FillWithScalar_def cudaMemset_def elem_addr_def load_def store_def)

section \<open>C4: \<open>Write\<close> then \<open>Read\<close>\<close>

text \<open>
  C4. For an allocated array with any contents, \<open>width\<close>, \<open>height\<close> and \<open>depth\<close> at least 1
  and elements of at least one byte, and an allocated array of the same \<open>width\<close>, \<open>height\<close>
  and \<open>depth\<close> (its base address and pitch may differ): \<open>Write(path)\<close> on the first
  returns, \<open>Read(path)\<close> on the second then returns, and every element of the second is
  the element the first held at the same coordinates. The elements of the array take
  fewer than \<open>2 ^ 63\<close> bytes, as those of every array whose host copy, a \<open>std::vector\<close>,
  can exist: the count that \<open>Read\<close> passes to \<open>read\<close> is then the same number as a
  \<open>std::streamsize\<close>.
\<close>

theorem Write_Read_roundtrip:
  assumes al: "allocated sz m" "allocated sz m'"
    and pos: "0 < sz" "1 \<le> width m" "1 \<le> height m" "1 \<le> depth m"
    and same: "width m' = width m" "height m' = height m" "depth m' = depth m"
    and small: "unat (width m) * unat (height m) * unat (depth m) * sz < 2 ^ 63"
  shows "\<exists>fs' mem''. Write sz m file_name fs mem = Inr fs'
           \<and> Read sz m' file_name fs' mem' = Inr mem''
           \<and> (\<forall>row col sl. row < height m \<and> col < width m \<and> sl < depth m \<longrightarrow>
                 Get sz m' mem'' row col sl = Get sz m mem row col sl)"
proof -
  have p: "0 < unat (width m)" "0 < unat (height m)" "0 < unat (depth m)"
    using pos(2-4) by (simp_all add: word_le_nat_alt)
  have p': "0 < unat (width m')" "0 < unat (height m')" "0 < unat (depth m')"
    using p same by simp_all
  from Write_file [OF al(1) pos(1) p, of file_name fs mem]
  obtain bytes where w: "Write sz m file_name fs mem
           = Inr (fs(file_name \<mapsto> header (unat (width m)) (unat (height m)) (unat (depth m)) @ bytes))"
    and len: "length bytes = unat (width m) * unat (height m) * unat (depth m) * sz"
    and wb: "\<And>k j. k < unat (height m) * unat (depth m) \<Longrightarrow> j < unat (width m) * sz \<Longrightarrow>
               bytes ! (k * (unat (width m) * sz) + j) = mem (array_ptr m + k * unat (pitch m) + j)"
    by blast
  let ?fs' = "fs(file_name \<mapsto> header (unat (width m)) (unat (height m)) (unat (depth m)) @ bytes)"
  have fl: "?fs' file_name = Some (header (unat (width m')) (unat (height m')) (unat (depth m')) @ bytes)"
    by (simp add: same)
  have len': "length bytes = unat (width m') * unat (height m') * unat (depth m') * sz"
    using len by (simp add: same)
  have small': "unat (width m') * unat (height m') * unat (depth m') * sz < 2 ^ 63"
    using small by (simp add: same)
  from Read_file [where fs = ?fs' and file_name = file_name and mem = mem',
      OF al(2) pos(1) p' fl len' small']
  obtain mem'' where r: "Read sz m' file_name ?fs' mem' = Inr mem''"
    and rb: "\<And>k j. k < unat (height m) * unat (depth m) \<Longrightarrow> j < unat (width m) * sz \<Longrightarrow>
               mem'' (array_ptr m' + k * unat (pitch m') + j) = bytes ! (k * (unat (width m) * sz) + j)"
    unfolding same by blast
  have "Get sz m' mem'' row col sl = Get sz m mem row col sl"
    if v: "row < height m \<and> col < width m \<and> sl < depth m" for row col sl
    unfolding Get_def
  proof (rule load_cong)
    fix i assume i: "i < sz"
    from v have v1: "row < height m" "col < width m" "sl < depth m" by simp_all
    then have v2: "row < height m'" "col < width m'" "sl < depth m'" by (simp_all add: same)
    from elem_row_bytes [OF al(1) v1 i] obtain k j where
      kj: "k < unat (height m) * unat (depth m)" "j < unat (width m) * sz"
      and a1: "elem_addr sz m row col sl + i = array_ptr m + k * unat (pitch m) + j"
      and kd: "k = unat sl * unat (height m) + unat row" "j = unat col * sz + i" by blast
    from elem_row_bytes [OF al(2) v2 i] kd
    have a2: "elem_addr sz m' row col sl + i = array_ptr m' + k * unat (pitch m') + j"
      by (auto simp: same)
    show "mem'' (elem_addr sz m' row col sl + i) = mem (elem_addr sz m row col sl + i)"
      unfolding a1 a2 using rb [OF kj] wb [OF kj] by simp
  qed
  then show ?thesis using w r by blast
qed

theorem Write_Read_roundtrip_witness:
  "allocated 1 \<lparr> array_ptr = 0, pitch = 4, width = 2, height = 1, depth = 2,
        blockSize = \<lparr> dim_x = 32, dim_y = 16, dim_z = 1 \<rparr>,
        gridSize = \<lparr> dim_x = 1, dim_y = 1, dim_z = 1 \<rparr> \<rparr>
   \<and> allocated 1 \<lparr> array_ptr = 100, pitch = 2, width = 2, height = 1, depth = 2,
        blockSize = \<lparr> dim_x = 32, dim_y = 16, dim_z = 1 \<rparr>,
        gridSize = \<lparr> dim_x = 1, dim_y = 1, dim_z = 1 \<rparr> \<rparr>
   \<and> (\<exists>fs' mem''.
         Write 1 \<lparr> array_ptr = 0, pitch = 4, width = 2, height = 1, depth = 2,
        blockSize = \<lparr> dim_x = 32, dim_y = 16, dim_z = 1 \<rparr>,
        gridSize = \<lparr> dim_x = 1, dim_y = 1, dim_z = 1 \<rparr> \<rparr> ''out'' Map.empty (store vector_store 0 [10, 11, 0, 0, 12, 13]) = Inr fs'
       \<and> Read 1 \<lparr> array_ptr = 100, pitch = 2, width = 2, height = 1, depth = 2,
        blockSize = \<lparr> dim_x = 32, dim_y = 16, dim_z = 1 \<rparr>,
        gridSize = \<lparr> dim_x = 1, dim_y = 1, dim_z = 1 \<rparr> \<rparr> ''out'' fs' vector_store = Inr mem''
       \<and> Get 1 \<lparr> array_ptr = 100, pitch = 2, width = 2, height = 1, depth = 2,
        blockSize = \<lparr> dim_x = 32, dim_y = 16, dim_z = 1 \<rparr>,
        gridSize = \<lparr> dim_x = 1, dim_y = 1, dim_z = 1 \<rparr> \<rparr> mem'' 0 1 1 = [13])"
proof -
  let ?m = "\<lparr> array_ptr = 0, pitch = 4, width = 2, height = 1, depth = 2,
        blockSize = \<lparr> dim_x = 32, dim_y = 16, dim_z = 1 \<rparr>,
        gridSize = \<lparr> dim_x = 1, dim_y = 1, dim_z = 1 \<rparr> \<rparr>"
  let ?m' = "\<lparr> array_ptr = 100, pitch = 2, width = 2, height = 1, depth = 2,
        blockSize = \<lparr> dim_x = 32, dim_y = 16, dim_z = 1 \<rparr>,
        gridSize = \<lparr> dim_x = 1, dim_y = 1, dim_z = 1 \<rparr> \<rparr>"
  let ?mem = "(store vector_store 0 [10, 11, 0, 0, 12, 13])"
  have al: "allocated 1 ?m" "allocated 1 ?m'" by (simp_all add: allocated_def)
  have pos: "0 < (1 :: nat)" "1 \<le> width ?m" "1 \<le> height ?m" "1 \<le> depth ?m" by simp_all
  have same: "width ?m' = width ?m" "height ?m' = height ?m" "depth ?m' = depth ?m" by simp_all
  have small: "unat (width ?m) * unat (height ?m) * unat (depth ?m) * 1 < 2 ^ 63" by simp
  have v: "(0 :: size_t) < height ?m \<and> (1 :: size_t) < width ?m \<and> (1 :: size_t) < depth ?m"
    by simp
  have g: "Get 1 ?m ?mem 0 1 1 = [13]"
    by (simp add: Get_def elem_addr_def load_def store_def)
  from Write_Read_roundtrip [OF al pos same small, of "''out''" Map.empty ?mem vector_store]
  obtain fs' mem'' where "Write 1 ?m ''out'' Map.empty ?mem = Inr fs'"
    "Read 1 ?m' ''out'' fs' vector_store = Inr mem''"
    "\<forall>row col sl. row < height ?m \<and> col < width ?m \<and> sl < depth ?m \<longrightarrow>
        Get 1 ?m' mem'' row col sl = Get 1 ?m ?mem row col sl"
    by blast
  then have "Write 1 ?m ''out'' Map.empty ?mem = Inr fs'
       \<and> Read 1 ?m' ''out'' fs' vector_store = Inr mem''
       \<and> Get 1 ?m' mem'' 0 1 1 = [13]"
    using v g by metis
  then show ?thesis using al by blast
qed

section \<open>C5: \<open>Rotate\<close> against \<open>FlipHorizontal\<close>, then \<open>Transpose\<close>\<close>

text \<open>
  C5 says that \<open>Rotate(output)\<close> gives, element for element, what \<open>FlipHorizontal\<close> into a
  temporary of the same dimensions followed by \<open>Transpose\<close> of the temporary into the output
  gives; the comment at the end of \<open>Rotate\<close> says the same. The code does not do it. The
  three dispatchers start slice \<open>k\<close> at the element \<open>k * pitch_ / sizeof(T) * height\<close>, where
  \<open>Get\<close> and \<open>Set\<close> start it at the byte \<open>pitch_ * k * height_\<close>, and the division truncates
  when \<open>sizeof(T)\<close> does not divide the pitch.

  The input: elements of 3 bytes and rows of 512 bytes, the pitch of an allocator that
  aligns rows to 512 bytes. The source, \<open>170 \<times> 2 \<times> 2\<close>, is at address 0, the temporary of
  the same dimensions at address 4096, the \<open>2 \<times> 170 \<times> 2\<close> output at address 8192; the three
  are allocated and do not alias. The memory is 0 except for the source element at row 1,
  column 0 of slice 0, which is \<open>[7, 8, 9]\<close>. Slice 1 of the temporary belongs at byte 5120
  and the dispatchers put it at byte 5116, on the last two bytes of the last element of
  slice 0. \<open>Rotate\<close> leaves the source element at row 169, column 1 of slice 0 of the
  output; after \<open>FlipHorizontal\<close> and \<open>Transpose\<close> the element there is \<open>[7, 0, 0]\<close>.
\<close>

theorem Rotate_differs_from_Transpose_of_FlipHorizontal:
  "allocated 3 \<lparr> array_ptr = 0, pitch = 512, width = 170, height = 2, depth = 2,
        blockSize = \<lparr> dim_x = 32, dim_y = 16, dim_z = 1 \<rparr>,
        gridSize = \<lparr> dim_x = 6, dim_y = 1, dim_z = 1 \<rparr> \<rparr>
   \<and> allocated 3 \<lparr> array_ptr = 4096, pitch = 512, width = 170, height = 2, depth = 2,
        blockSize = \<lparr> dim_x = 32, dim_y = 16, dim_z = 1 \<rparr>,
        gridSize = \<lparr> dim_x = 6, dim_y = 1, dim_z = 1 \<rparr> \<rparr>
   \<and> allocated 3 \<lparr> array_ptr = 8192, pitch = 512, width = 2, height = 170, depth = 2,
        blockSize = \<lparr> dim_x = 32, dim_y = 16, dim_z = 1 \<rparr>,
        gridSize = \<lparr> dim_x = 1, dim_y = 11, dim_z = 1 \<rparr> \<rparr>
   \<and> separate \<lparr> array_ptr = 0, pitch = 512, width = 170, height = 2, depth = 2,
        blockSize = \<lparr> dim_x = 32, dim_y = 16, dim_z = 1 \<rparr>,
        gridSize = \<lparr> dim_x = 6, dim_y = 1, dim_z = 1 \<rparr> \<rparr>
        \<lparr> array_ptr = 4096, pitch = 512, width = 170, height = 2, depth = 2,
        blockSize = \<lparr> dim_x = 32, dim_y = 16, dim_z = 1 \<rparr>,
        gridSize = \<lparr> dim_x = 6, dim_y = 1, dim_z = 1 \<rparr> \<rparr>
   \<and> separate \<lparr> array_ptr = 0, pitch = 512, width = 170, height = 2, depth = 2,
        blockSize = \<lparr> dim_x = 32, dim_y = 16, dim_z = 1 \<rparr>,
        gridSize = \<lparr> dim_x = 6, dim_y = 1, dim_z = 1 \<rparr> \<rparr>
        \<lparr> array_ptr = 8192, pitch = 512, width = 2, height = 170, depth = 2,
        blockSize = \<lparr> dim_x = 32, dim_y = 16, dim_z = 1 \<rparr>,
        gridSize = \<lparr> dim_x = 1, dim_y = 11, dim_z = 1 \<rparr> \<rparr>
   \<and> separate \<lparr> array_ptr = 4096, pitch = 512, width = 170, height = 2, depth = 2,
        blockSize = \<lparr> dim_x = 32, dim_y = 16, dim_z = 1 \<rparr>,
        gridSize = \<lparr> dim_x = 6, dim_y = 1, dim_z = 1 \<rparr> \<rparr>
        \<lparr> array_ptr = 8192, pitch = 512, width = 2, height = 170, depth = 2,
        blockSize = \<lparr> dim_x = 32, dim_y = 16, dim_z = 1 \<rparr>,
        gridSize = \<lparr> dim_x = 1, dim_y = 11, dim_z = 1 \<rparr> \<rparr>
   \<and> slice_ptr 3 \<lparr> array_ptr = 4096, pitch = 512, width = 170, height = 2, depth = 2,
        blockSize = \<lparr> dim_x = 32, dim_y = 16, dim_z = 1 \<rparr>,
        gridSize = \<lparr> dim_x = 6, dim_y = 1, dim_z = 1 \<rparr> \<rparr> 1 = 5116
   \<and> elem_addr 3 \<lparr> array_ptr = 4096, pitch = 512, width = 170, height = 2, depth = 2,
        blockSize = \<lparr> dim_x = 32, dim_y = 16, dim_z = 1 \<rparr>,
        gridSize = \<lparr> dim_x = 6, dim_y = 1, dim_z = 1 \<rparr> \<rparr> 0 0 1 = 5120
   \<and> Get 3 \<lparr> array_ptr = 0, pitch = 512, width = 170, height = 2, depth = 2,
        blockSize = \<lparr> dim_x = 32, dim_y = 16, dim_z = 1 \<rparr>,
        gridSize = \<lparr> dim_x = 6, dim_y = 1, dim_z = 1 \<rparr> \<rparr>
        (store vector_store 512 [7, 8, 9]) 1 0 0 = [7, 8, 9]
   \<and> Get 3 \<lparr> array_ptr = 8192, pitch = 512, width = 2, height = 170, depth = 2,
        blockSize = \<lparr> dim_x = 32, dim_y = 16, dim_z = 1 \<rparr>,
        gridSize = \<lparr> dim_x = 1, dim_y = 11, dim_z = 1 \<rparr> \<rparr>
        (Rotate 3 \<lparr> array_ptr = 0, pitch = 512, width = 170, height = 2, depth = 2,
        blockSize = \<lparr> dim_x = 32, dim_y = 16, dim_z = 1 \<rparr>,
        gridSize = \<lparr> dim_x = 6, dim_y = 1, dim_z = 1 \<rparr> \<rparr>
           \<lparr> array_ptr = 8192, pitch = 512, width = 2, height = 170, depth = 2,
        blockSize = \<lparr> dim_x = 32, dim_y = 16, dim_z = 1 \<rparr>,
        gridSize = \<lparr> dim_x = 1, dim_y = 11, dim_z = 1 \<rparr> \<rparr>
           (store vector_store 512 [7, 8, 9])) 169 1 0 = [7, 8, 9]
   \<and> Get 3 \<lparr> array_ptr = 8192, pitch = 512, width = 2, height = 170, depth = 2,
        blockSize = \<lparr> dim_x = 32, dim_y = 16, dim_z = 1 \<rparr>,
        gridSize = \<lparr> dim_x = 1, dim_y = 11, dim_z = 1 \<rparr> \<rparr>
        (Transpose 3 \<lparr> array_ptr = 4096, pitch = 512, width = 170, height = 2, depth = 2,
        blockSize = \<lparr> dim_x = 32, dim_y = 16, dim_z = 1 \<rparr>,
        gridSize = \<lparr> dim_x = 6, dim_y = 1, dim_z = 1 \<rparr> \<rparr>
           \<lparr> array_ptr = 8192, pitch = 512, width = 2, height = 170, depth = 2,
        blockSize = \<lparr> dim_x = 32, dim_y = 16, dim_z = 1 \<rparr>,
        gridSize = \<lparr> dim_x = 1, dim_y = 11, dim_z = 1 \<rparr> \<rparr>
           (FlipHorizontal 3 \<lparr> array_ptr = 0, pitch = 512, width = 170, height = 2, depth = 2,
        blockSize = \<lparr> dim_x = 32, dim_y = 16, dim_z = 1 \<rparr>,
        gridSize = \<lparr> dim_x = 6, dim_y = 1, dim_z = 1 \<rparr> \<rparr>
              \<lparr> array_ptr = 4096, pitch = 512, width = 170, height = 2, depth = 2,
        blockSize = \<lparr> dim_x = 32, dim_y = 16, dim_z = 1 \<rparr>,
        gridSize = \<lparr> dim_x = 6, dim_y = 1, dim_z = 1 \<rparr> \<rparr>
              (store vector_store 512 [7, 8, 9]))) 169 1 0 = [7, 0, 0]"
proof -
  let ?m = "\<lparr> array_ptr = 0, pitch = 512, width = 170, height = 2, depth = 2,
        blockSize = \<lparr> dim_x = 32, dim_y = 16, dim_z = 1 \<rparr>,
        gridSize = \<lparr> dim_x = 6, dim_y = 1, dim_z = 1 \<rparr> \<rparr>"
  let ?tmp = "\<lparr> array_ptr = 4096, pitch = 512, width = 170, height = 2, depth = 2,
        blockSize = \<lparr> dim_x = 32, dim_y = 16, dim_z = 1 \<rparr>,
        gridSize = \<lparr> dim_x = 6, dim_y = 1, dim_z = 1 \<rparr> \<rparr>"
  let ?out = "\<lparr> array_ptr = 8192, pitch = 512, width = 2, height = 170, depth = 2,
        blockSize = \<lparr> dim_x = 32, dim_y = 16, dim_z = 1 \<rparr>,
        gridSize = \<lparr> dim_x = 1, dim_y = 11, dim_z = 1 \<rparr> \<rparr>"
  let ?mem = "(store vector_store 512 [7, 8, 9])"
  have two: "[0..<2] = [0, Suc 0]" by (simp add: upt_rec)
  have sp: "slice_ptr 3 ?m 0 = 0" "slice_ptr 3 ?m (Suc 0) = 1020"
    "slice_ptr 3 ?tmp 0 = 4096" "slice_ptr 3 ?tmp (Suc 0) = 5116"
    "slice_ptr 3 ?out 0 = 8192" "slice_ptr 3 ?out (Suc 0) = 94892"
    by (simp_all add: slice_ptr_def)
  have ea: "elem_addr 3 ?out 169 1 0 = 94723" by (simp add: elem_addr_def)
  have rot: "Rotate 3 ?m ?out ?mem
      = CudaRotate 3 1020 94892 170 2 512 512 (CudaRotate 3 0 8192 170 2 512 512 ?mem)"
    by (simp add: Rotate_def two sp)
  have flip: "FlipHorizontal 3 ?m ?tmp ?mem
      = CudaFlipHorizontal 3 1020 5116 170 2 512 512 (CudaFlipHorizontal 3 0 4096 170 2 512 512 ?mem)"
    by (simp add: FlipHorizontal_def two sp)
  have tr: "Transpose 3 ?tmp ?out cur
      = CudaTranspose 3 5116 94892 170 2 512 512 (CudaTranspose 3 4096 8192 170 2 512 512 cur)"
    for cur by (simp add: Transpose_def two sp)
  have r: "Rotate 3 ?m ?out ?mem (94723 + i) = ?mem (512 + i)" if "i < 3" for i
  proof -
    have "Rotate 3 ?m ?out ?mem (94723 + i)
        = CudaRotate 3 0 8192 170 2 512 512 ?mem (94723 + i)"
      unfolding rot using that by (intro CudaRotate_frame) simp_all
    also have "\<dots> = CudaRotate 3 0 8192 170 2 512 512 ?mem
                      (8192 + (unat (170 :: size_t) - 1 - 0) * unat (512 :: size_t) + 1 * 3 + i)"
      by simp
    also have "\<dots> = ?mem (0 + 1 * unat (512 :: size_t) + 0 * 3 + i)"
      using that by (intro CudaRotate_byte) simp_all
    finally show ?thesis by simp
  qed
  have f0: "FlipHorizontal 3 ?m ?tmp ?mem 5115 = ?mem 512"
  proof -
    have "FlipHorizontal 3 ?m ?tmp ?mem 5115
        = CudaFlipHorizontal 3 0 4096 170 2 512 512 ?mem 5115"
      unfolding flip by (intro CudaFlipHorizontal_frame) simp_all
    also have "\<dots> = CudaFlipHorizontal 3 0 4096 170 2 512 512 ?mem
                      (4096 + 1 * unat (512 :: size_t) + (unat (170 :: size_t) - 1 - 0) * 3 + 0)"
      by simp
    also have "\<dots> = ?mem (0 + 1 * unat (512 :: size_t) + 0 * 3 + 0)"
      by (intro CudaFlipHorizontal_byte) simp_all
    finally show ?thesis by simp
  qed
  have f1: "FlipHorizontal 3 ?m ?tmp ?mem (5116 + j) = ?mem (1527 + j)" if "j < 3" for j
  proof -
    have "FlipHorizontal 3 ?m ?tmp ?mem (5116 + j)
        = CudaFlipHorizontal 3 1020 5116 170 2 512 512 (CudaFlipHorizontal 3 0 4096 170 2 512 512 ?mem)
            (5116 + 0 * unat (512 :: size_t) + (unat (170 :: size_t) - 1 - 169) * 3 + j)"
      unfolding flip by simp
    also have "\<dots> = CudaFlipHorizontal 3 0 4096 170 2 512 512 ?mem
                      (1020 + 0 * unat (512 :: size_t) + 169 * 3 + j)"
      using that by (intro CudaFlipHorizontal_byte) simp_all
    also have "\<dots> = ?mem (1020 + 0 * unat (512 :: size_t) + 169 * 3 + j)"
      using that by (intro CudaFlipHorizontal_frame) simp_all
    finally show ?thesis by simp
  qed
  have t: "Transpose 3 ?tmp ?out cur (94723 + i) = cur (5115 + i)" if "i < 3" for i cur
  proof -
    have "Transpose 3 ?tmp ?out cur (94723 + i)
        = CudaTranspose 3 4096 8192 170 2 512 512 cur (94723 + i)"
      unfolding tr using that by (intro CudaTranspose_frame) simp_all
    also have "\<dots> = CudaTranspose 3 4096 8192 170 2 512 512 cur
                      (8192 + 169 * unat (512 :: size_t) + 1 * 3 + i)"
      by simp
    also have "\<dots> = cur (4096 + 1 * unat (512 :: size_t) + 169 * 3 + i)"
      using that by (intro CudaTranspose_byte) simp_all
    finally show ?thesis by simp
  qed
  have m: "?mem 512 = 7" "?mem 513 = 8" "?mem 514 = 9" "?mem 1527 = 0" "?mem 1528 = 0"
    by (simp_all add: store_def vector_store_def)
  have al: "allocated 3 ?m" "allocated 3 ?tmp" "allocated 3 ?out"
    by (simp_all add: allocated_def)
  have sep: "separate ?m ?tmp" "separate ?m ?out" "separate ?tmp ?out"
    by (simp_all add: separate_def footprint_def)
  have ad: "slice_ptr 3 ?tmp 1 = 5116" "elem_addr 3 ?tmp 0 0 1 = 5120"
    by (simp_all add: slice_ptr_def elem_addr_def)
  have src: "Get 3 ?m ?mem 1 0 0 = [7, 8, 9]"
    by (simp add: Get_def elem_addr_def load_3 m)
  have rg: "Get 3 ?out (Rotate 3 ?m ?out ?mem) 169 1 0 = [7, 8, 9]"
    unfolding Get_def ea load_3 using r [of 0] r [of 1] r [of 2] m by simp
  have tg: "Get 3 ?out (Transpose 3 ?tmp ?out (FlipHorizontal 3 ?m ?tmp ?mem)) 169 1 0 = [7, 0, 0]"
    unfolding Get_def ea load_3
    using t [of 0] t [of 1] t [of 2] f0 f1 [of 0] f1 [of 1] m by simp
  from al sep ad src rg tg show ?thesis by blast
qed


text \<open>
  The same at a small instance, by evaluation: elements of 3 bytes, a \<open>2 \<times> 3 \<times> 2\<close> source
  at address 0 and a temporary at address 100, both with pitch 8, a \<open>3 \<times> 2 \<times> 2\<close> output at
  address 200 with pitch 16. Row \<open>k\<close> of the source holds the six bytes \<open>10 * k + 1\<close> to
  \<open>10 * k + 6\<close> and two bytes of padding, 0. Slice 1 of the temporary belongs at byte 124
  and is put at byte 118, inside row 2 of slice 0. The output element at row 1, column 2
  of slice 0 is the source element at row 2, column 0, \<open>[21, 22, 23]\<close>, after \<open>Rotate\<close>, and
  \<open>[0, 0, 23]\<close> after \<open>FlipHorizontal\<close> and \<open>Transpose\<close>. In slice 1 \<open>Rotate\<close> alone
  leaves at row 0, column 0 of the output \<open>[0, 36, 0]\<close>, which is no element of the
  source; the source element at row 0, column 1 is \<open>[34, 35, 36]\<close>.
\<close>

lemma Rotate_small_instance:
  "allocated 3 \<lparr> array_ptr = 0, pitch = 8, width = 2, height = 3, depth = 2,
        blockSize = \<lparr> dim_x = 32, dim_y = 16, dim_z = 1 \<rparr>,
        gridSize = \<lparr> dim_x = 1, dim_y = 1, dim_z = 1 \<rparr> \<rparr>
   \<and> allocated 3 \<lparr> array_ptr = 100, pitch = 8, width = 2, height = 3, depth = 2,
        blockSize = \<lparr> dim_x = 32, dim_y = 16, dim_z = 1 \<rparr>,
        gridSize = \<lparr> dim_x = 1, dim_y = 1, dim_z = 1 \<rparr> \<rparr>
   \<and> allocated 3 \<lparr> array_ptr = 200, pitch = 16, width = 3, height = 2, depth = 2,
        blockSize = \<lparr> dim_x = 32, dim_y = 16, dim_z = 1 \<rparr>,
        gridSize = \<lparr> dim_x = 1, dim_y = 1, dim_z = 1 \<rparr> \<rparr>
   \<and> separate \<lparr> array_ptr = 0, pitch = 8, width = 2, height = 3, depth = 2,
        blockSize = \<lparr> dim_x = 32, dim_y = 16, dim_z = 1 \<rparr>,
        gridSize = \<lparr> dim_x = 1, dim_y = 1, dim_z = 1 \<rparr> \<rparr>
        \<lparr> array_ptr = 100, pitch = 8, width = 2, height = 3, depth = 2,
        blockSize = \<lparr> dim_x = 32, dim_y = 16, dim_z = 1 \<rparr>,
        gridSize = \<lparr> dim_x = 1, dim_y = 1, dim_z = 1 \<rparr> \<rparr>
   \<and> separate \<lparr> array_ptr = 0, pitch = 8, width = 2, height = 3, depth = 2,
        blockSize = \<lparr> dim_x = 32, dim_y = 16, dim_z = 1 \<rparr>,
        gridSize = \<lparr> dim_x = 1, dim_y = 1, dim_z = 1 \<rparr> \<rparr>
        \<lparr> array_ptr = 200, pitch = 16, width = 3, height = 2, depth = 2,
        blockSize = \<lparr> dim_x = 32, dim_y = 16, dim_z = 1 \<rparr>,
        gridSize = \<lparr> dim_x = 1, dim_y = 1, dim_z = 1 \<rparr> \<rparr>
   \<and> separate \<lparr> array_ptr = 100, pitch = 8, width = 2, height = 3, depth = 2,
        blockSize = \<lparr> dim_x = 32, dim_y = 16, dim_z = 1 \<rparr>,
        gridSize = \<lparr> dim_x = 1, dim_y = 1, dim_z = 1 \<rparr> \<rparr>
        \<lparr> array_ptr = 200, pitch = 16, width = 3, height = 2, depth = 2,
        blockSize = \<lparr> dim_x = 32, dim_y = 16, dim_z = 1 \<rparr>,
        gridSize = \<lparr> dim_x = 1, dim_y = 1, dim_z = 1 \<rparr> \<rparr>
   \<and> slice_ptr 3 \<lparr> array_ptr = 100, pitch = 8, width = 2, height = 3, depth = 2,
        blockSize = \<lparr> dim_x = 32, dim_y = 16, dim_z = 1 \<rparr>,
        gridSize = \<lparr> dim_x = 1, dim_y = 1, dim_z = 1 \<rparr> \<rparr> 1 = 118
   \<and> elem_addr 3 \<lparr> array_ptr = 100, pitch = 8, width = 2, height = 3, depth = 2,
        blockSize = \<lparr> dim_x = 32, dim_y = 16, dim_z = 1 \<rparr>,
        gridSize = \<lparr> dim_x = 1, dim_y = 1, dim_z = 1 \<rparr> \<rparr> 0 0 1 = 124
   \<and> Get 3 \<lparr> array_ptr = 0, pitch = 8, width = 2, height = 3, depth = 2,
        blockSize = \<lparr> dim_x = 32, dim_y = 16, dim_z = 1 \<rparr>,
        gridSize = \<lparr> dim_x = 1, dim_y = 1, dim_z = 1 \<rparr> \<rparr>
        (store vector_store 0 [1, 2, 3, 4, 5, 6, 0, 0, 11, 12, 13, 14, 15, 16, 0, 0,
             21, 22, 23, 24, 25, 26, 0, 0, 31, 32, 33, 34, 35, 36, 0, 0,
             41, 42, 43, 44, 45, 46, 0, 0, 51, 52, 53, 54, 55, 56, 0, 0]) 2 0 0 = [21, 22, 23]
   \<and> Get 3 \<lparr> array_ptr = 200, pitch = 16, width = 3, height = 2, depth = 2,
        blockSize = \<lparr> dim_x = 32, dim_y = 16, dim_z = 1 \<rparr>,
        gridSize = \<lparr> dim_x = 1, dim_y = 1, dim_z = 1 \<rparr> \<rparr>
        (Rotate 3 \<lparr> array_ptr = 0, pitch = 8, width = 2, height = 3, depth = 2,
        blockSize = \<lparr> dim_x = 32, dim_y = 16, dim_z = 1 \<rparr>,
        gridSize = \<lparr> dim_x = 1, dim_y = 1, dim_z = 1 \<rparr> \<rparr>
           \<lparr> array_ptr = 200, pitch = 16, width = 3, height = 2, depth = 2,
        blockSize = \<lparr> dim_x = 32, dim_y = 16, dim_z = 1 \<rparr>,
        gridSize = \<lparr> dim_x = 1, dim_y = 1, dim_z = 1 \<rparr> \<rparr>
           (store vector_store 0 [1, 2, 3, 4, 5, 6, 0, 0, 11, 12, 13, 14, 15, 16, 0, 0,
             21, 22, 23, 24, 25, 26, 0, 0, 31, 32, 33, 34, 35, 36, 0, 0,
             41, 42, 43, 44, 45, 46, 0, 0, 51, 52, 53, 54, 55, 56, 0, 0])) 1 2 0 = [21, 22, 23]
   \<and> Get 3 \<lparr> array_ptr = 200, pitch = 16, width = 3, height = 2, depth = 2,
        blockSize = \<lparr> dim_x = 32, dim_y = 16, dim_z = 1 \<rparr>,
        gridSize = \<lparr> dim_x = 1, dim_y = 1, dim_z = 1 \<rparr> \<rparr>
        (Transpose 3 \<lparr> array_ptr = 100, pitch = 8, width = 2, height = 3, depth = 2,
        blockSize = \<lparr> dim_x = 32, dim_y = 16, dim_z = 1 \<rparr>,
        gridSize = \<lparr> dim_x = 1, dim_y = 1, dim_z = 1 \<rparr> \<rparr>
           \<lparr> array_ptr = 200, pitch = 16, width = 3, height = 2, depth = 2,
        blockSize = \<lparr> dim_x = 32, dim_y = 16, dim_z = 1 \<rparr>,
        gridSize = \<lparr> dim_x = 1, dim_y = 1, dim_z = 1 \<rparr> \<rparr>
           (FlipHorizontal 3 \<lparr> array_ptr = 0, pitch = 8, width = 2, height = 3, depth = 2,
        blockSize = \<lparr> dim_x = 32, dim_y = 16, dim_z = 1 \<rparr>,
        gridSize = \<lparr> dim_x = 1, dim_y = 1, dim_z = 1 \<rparr> \<rparr>
              \<lparr> array_ptr = 100, pitch = 8, width = 2, height = 3, depth = 2,
        blockSize = \<lparr> dim_x = 32, dim_y = 16, dim_z = 1 \<rparr>,
        gridSize = \<lparr> dim_x = 1, dim_y = 1, dim_z = 1 \<rparr> \<rparr>
              (store vector_store 0 [1, 2, 3, 4, 5, 6, 0, 0, 11, 12, 13, 14, 15, 16, 0, 0,
             21, 22, 23, 24, 25, 26, 0, 0, 31, 32, 33, 34, 35, 36, 0, 0,
             41, 42, 43, 44, 45, 46, 0, 0, 51, 52, 53, 54, 55, 56, 0, 0]))) 1 2 0 = [0, 0, 23]
   \<and> Get 3 \<lparr> array_ptr = 0, pitch = 8, width = 2, height = 3, depth = 2,
        blockSize = \<lparr> dim_x = 32, dim_y = 16, dim_z = 1 \<rparr>,
        gridSize = \<lparr> dim_x = 1, dim_y = 1, dim_z = 1 \<rparr> \<rparr>
        (store vector_store 0 [1, 2, 3, 4, 5, 6, 0, 0, 11, 12, 13, 14, 15, 16, 0, 0,
             21, 22, 23, 24, 25, 26, 0, 0, 31, 32, 33, 34, 35, 36, 0, 0,
             41, 42, 43, 44, 45, 46, 0, 0, 51, 52, 53, 54, 55, 56, 0, 0]) 0 1 1 = [34, 35, 36]
   \<and> Get 3 \<lparr> array_ptr = 200, pitch = 16, width = 3, height = 2, depth = 2,
        blockSize = \<lparr> dim_x = 32, dim_y = 16, dim_z = 1 \<rparr>,
        gridSize = \<lparr> dim_x = 1, dim_y = 1, dim_z = 1 \<rparr> \<rparr>
        (Rotate 3 \<lparr> array_ptr = 0, pitch = 8, width = 2, height = 3, depth = 2,
        blockSize = \<lparr> dim_x = 32, dim_y = 16, dim_z = 1 \<rparr>,
        gridSize = \<lparr> dim_x = 1, dim_y = 1, dim_z = 1 \<rparr> \<rparr>
           \<lparr> array_ptr = 200, pitch = 16, width = 3, height = 2, depth = 2,
        blockSize = \<lparr> dim_x = 32, dim_y = 16, dim_z = 1 \<rparr>,
        gridSize = \<lparr> dim_x = 1, dim_y = 1, dim_z = 1 \<rparr> \<rparr>
           (store vector_store 0 [1, 2, 3, 4, 5, 6, 0, 0, 11, 12, 13, 14, 15, 16, 0, 0,
             21, 22, 23, 24, 25, 26, 0, 0, 31, 32, 33, 34, 35, 36, 0, 0,
             41, 42, 43, 44, 45, 46, 0, 0, 51, 52, 53, 54, 55, 56, 0, 0])) 0 0 1 = [0, 36, 0]"
proof -
  let ?m = "\<lparr> array_ptr = 0, pitch = 8, width = 2, height = 3, depth = 2,
        blockSize = \<lparr> dim_x = 32, dim_y = 16, dim_z = 1 \<rparr>,
        gridSize = \<lparr> dim_x = 1, dim_y = 1, dim_z = 1 \<rparr> \<rparr>"
  let ?tmp = "\<lparr> array_ptr = 100, pitch = 8, width = 2, height = 3, depth = 2,
        blockSize = \<lparr> dim_x = 32, dim_y = 16, dim_z = 1 \<rparr>,
        gridSize = \<lparr> dim_x = 1, dim_y = 1, dim_z = 1 \<rparr> \<rparr>"
  let ?out = "\<lparr> array_ptr = 200, pitch = 16, width = 3, height = 2, depth = 2,
        blockSize = \<lparr> dim_x = 32, dim_y = 16, dim_z = 1 \<rparr>,
        gridSize = \<lparr> dim_x = 1, dim_y = 1, dim_z = 1 \<rparr> \<rparr>"
  let ?mem = "(store vector_store 0 [1, 2, 3, 4, 5, 6, 0, 0, 11, 12, 13, 14, 15, 16, 0, 0,
             21, 22, 23, 24, 25, 26, 0, 0, 31, 32, 33, 34, 35, 36, 0, 0,
             41, 42, 43, 44, 45, 46, 0, 0, 51, 52, 53, 54, 55, 56, 0, 0])"
  have al: "allocated 3 ?m" "allocated 3 ?tmp" "allocated 3 ?out"
    by (simp_all add: allocated_def)
  have sep: "separate ?m ?tmp" "separate ?m ?out" "separate ?tmp ?out"
    by (simp_all add: separate_def footprint_def)
  have ad: "slice_ptr 3 ?tmp 1 = 118" "elem_addr 3 ?tmp 0 0 1 = 124"
    by (simp_all add: slice_ptr_def elem_addr_def)
  have src: "Get 3 ?m ?mem 2 0 0 = [21, 22, 23]" "Get 3 ?m ?mem 0 1 1 = [34, 35, 36]"
    by code_simp+
  have rot: "Get 3 ?out (Rotate 3 ?m ?out ?mem) 1 2 0 = [21, 22, 23]"
    by code_simp
  have tf: "Get 3 ?out (Transpose 3 ?tmp ?out (FlipHorizontal 3 ?m ?tmp ?mem)) 1 2 0 = [0, 0, 23]"
    by code_simp
  have rot1: "Get 3 ?out (Rotate 3 ?m ?out ?mem) 0 0 1 = [0, 36, 0]"
    by code_simp
  from al sep ad src rot tf rot1 show ?thesis by blast
qed



section \<open>The transforms when \<open>sizeof(T)\<close> divides the pitches\<close>

text \<open>
  The slice start of the dispatchers is exact when \<open>sizeof(T)\<close> divides the pitch of each
  array. For a source array, a temporary of the same dimensions and an output of the
  transposed dimensions that are allocated and pairwise non-aliasing, every element of
  the output after \<open>Rotate\<close> is then the element that \<open>FlipHorizontal\<close> into the temporary
  followed by \<open>Transpose\<close> of the temporary into the output leaves there: the truncated
  division is the only cause of the difference.
\<close>

theorem Rotate_is_Transpose_of_FlipHorizontal:
  assumes al: "allocated sz m" "allocated sz tmp" "allocated sz out" and sz0: "0 < sz"
    and dv: "sz dvd unat (pitch m)" "sz dvd unat (pitch tmp)" "sz dvd unat (pitch out)"
    and sep: "separate m tmp" "separate m out" "separate tmp out"
    and dt: "width tmp = width m" "height tmp = height m" "depth tmp = depth m"
    and dout: "width out = height m" "height out = width m" "depth out = depth m"
  shows "\<forall>row col sl. row < height out \<and> col < width out \<and> sl < depth out \<longrightarrow>
           Get sz out (Rotate sz m out mem) row col sl
         = Get sz out (Transpose sz tmp out (FlipHorizontal sz m tmp mem)) row col sl"
proof (intro allI impI)
  fix row col sl
  assume v: "row < height out \<and> col < width out \<and> sl < depth out"
  let ?W = "unat (width m)"
  let ?r = "unat col" and ?c' = "unat row" and ?k = "unat sl"
  let ?c = "?W - 1 - ?c'"
  have u: "?k < unat (depth m)" "?r < unat (height m)" "?c' < ?W"
    using v by (simp_all add: word_less_nat_alt dout)
  then have c: "?c < ?W" "?W - 1 - ?c = ?c'" by simp_all
  have ut: "?k < unat (depth tmp)" "?r < unat (height tmp)" "?c' < unat (width tmp)"
    using u by (simp_all add: dt)
  have dto: "width out = height tmp" "height out = width tmp" "depth out = depth tmp"
    by (simp_all add: dt dout)
  have "Get sz out (Rotate sz m out mem) (of_nat (?W - 1 - ?c)) (of_nat ?r) (of_nat ?k)
         = Get sz m mem (of_nat ?r) (of_nat ?c) (of_nat ?k)"
    by (rule Rotate_spec [OF al(1,3) sz0 dv(1,3) sep(2) dout u(1,2) c(1)])
  moreover have "Get sz out (Transpose sz tmp out (FlipHorizontal sz m tmp mem))
                   (of_nat ?c') (of_nat ?r) (of_nat ?k)
         = Get sz tmp (FlipHorizontal sz m tmp mem) (of_nat ?r) (of_nat ?c') (of_nat ?k)"
    by (rule Transpose_spec [OF al(2,3) sz0 dv(2,3) sep(3) dto ut])
  moreover have "Get sz tmp (FlipHorizontal sz m tmp mem) (of_nat ?r) (of_nat (?W - 1 - ?c)) (of_nat ?k)
         = Get sz m mem (of_nat ?r) (of_nat ?c) (of_nat ?k)"
    by (rule FlipHorizontal_spec [OF al(1,2) sz0 dv(1,2) sep(1) dt u(1,2) c(1)])
  ultimately show "Get sz out (Rotate sz m out mem) row col sl
         = Get sz out (Transpose sz tmp out (FlipHorizontal sz m tmp mem)) row col sl"
    unfolding c(2) by simp
qed

theorem Rotate_is_Transpose_of_FlipHorizontal_witness:
  "allocated 1 \<lparr> array_ptr = 0, pitch = 2, width = 2, height = 1, depth = 1,
        blockSize = \<lparr> dim_x = 32, dim_y = 16, dim_z = 1 \<rparr>,
        gridSize = \<lparr> dim_x = 1, dim_y = 1, dim_z = 1 \<rparr> \<rparr>
   \<and> allocated 1 \<lparr> array_ptr = 100, pitch = 2, width = 2, height = 1, depth = 1,
        blockSize = \<lparr> dim_x = 32, dim_y = 16, dim_z = 1 \<rparr>,
        gridSize = \<lparr> dim_x = 1, dim_y = 1, dim_z = 1 \<rparr> \<rparr>
   \<and> allocated 1 \<lparr> array_ptr = 200, pitch = 1, width = 1, height = 2, depth = 1,
        blockSize = \<lparr> dim_x = 32, dim_y = 16, dim_z = 1 \<rparr>,
        gridSize = \<lparr> dim_x = 1, dim_y = 1, dim_z = 1 \<rparr> \<rparr>
   \<and> Get 1 \<lparr> array_ptr = 200, pitch = 1, width = 1, height = 2, depth = 1,
        blockSize = \<lparr> dim_x = 32, dim_y = 16, dim_z = 1 \<rparr>,
        gridSize = \<lparr> dim_x = 1, dim_y = 1, dim_z = 1 \<rparr> \<rparr>
        (Rotate 1 \<lparr> array_ptr = 0, pitch = 2, width = 2, height = 1, depth = 1,
        blockSize = \<lparr> dim_x = 32, dim_y = 16, dim_z = 1 \<rparr>,
        gridSize = \<lparr> dim_x = 1, dim_y = 1, dim_z = 1 \<rparr> \<rparr>
           \<lparr> array_ptr = 200, pitch = 1, width = 1, height = 2, depth = 1,
        blockSize = \<lparr> dim_x = 32, dim_y = 16, dim_z = 1 \<rparr>,
        gridSize = \<lparr> dim_x = 1, dim_y = 1, dim_z = 1 \<rparr> \<rparr>
           (store vector_store 0 [10, 11])) 0 0 0 = [11]
   \<and> Get 1 \<lparr> array_ptr = 200, pitch = 1, width = 1, height = 2, depth = 1,
        blockSize = \<lparr> dim_x = 32, dim_y = 16, dim_z = 1 \<rparr>,
        gridSize = \<lparr> dim_x = 1, dim_y = 1, dim_z = 1 \<rparr> \<rparr>
        (Transpose 1 \<lparr> array_ptr = 100, pitch = 2, width = 2, height = 1, depth = 1,
        blockSize = \<lparr> dim_x = 32, dim_y = 16, dim_z = 1 \<rparr>,
        gridSize = \<lparr> dim_x = 1, dim_y = 1, dim_z = 1 \<rparr> \<rparr>
           \<lparr> array_ptr = 200, pitch = 1, width = 1, height = 2, depth = 1,
        blockSize = \<lparr> dim_x = 32, dim_y = 16, dim_z = 1 \<rparr>,
        gridSize = \<lparr> dim_x = 1, dim_y = 1, dim_z = 1 \<rparr> \<rparr>
           (FlipHorizontal 1 \<lparr> array_ptr = 0, pitch = 2, width = 2, height = 1, depth = 1,
        blockSize = \<lparr> dim_x = 32, dim_y = 16, dim_z = 1 \<rparr>,
        gridSize = \<lparr> dim_x = 1, dim_y = 1, dim_z = 1 \<rparr> \<rparr>
              \<lparr> array_ptr = 100, pitch = 2, width = 2, height = 1, depth = 1,
        blockSize = \<lparr> dim_x = 32, dim_y = 16, dim_z = 1 \<rparr>,
        gridSize = \<lparr> dim_x = 1, dim_y = 1, dim_z = 1 \<rparr> \<rparr>
              (store vector_store 0 [10, 11]))) 0 0 0 = [11]"
proof -
  let ?m = "\<lparr> array_ptr = 0, pitch = 2, width = 2, height = 1, depth = 1,
        blockSize = \<lparr> dim_x = 32, dim_y = 16, dim_z = 1 \<rparr>,
        gridSize = \<lparr> dim_x = 1, dim_y = 1, dim_z = 1 \<rparr> \<rparr>"
  let ?tmp = "\<lparr> array_ptr = 100, pitch = 2, width = 2, height = 1, depth = 1,
        blockSize = \<lparr> dim_x = 32, dim_y = 16, dim_z = 1 \<rparr>,
        gridSize = \<lparr> dim_x = 1, dim_y = 1, dim_z = 1 \<rparr> \<rparr>"
  let ?out = "\<lparr> array_ptr = 200, pitch = 1, width = 1, height = 2, depth = 1,
        blockSize = \<lparr> dim_x = 32, dim_y = 16, dim_z = 1 \<rparr>,
        gridSize = \<lparr> dim_x = 1, dim_y = 1, dim_z = 1 \<rparr> \<rparr>"
  let ?mem = "(store vector_store 0 [10, 11])"
  have al: "allocated 1 ?m" "allocated 1 ?tmp" "allocated 1 ?out"
    by (simp_all add: allocated_def)
  have sz0: "0 < (1 :: nat)" by simp
  have dv: "1 dvd unat (pitch ?m)" "1 dvd unat (pitch ?tmp)" "1 dvd unat (pitch ?out)"
    by simp_all
  have sep: "separate ?m ?tmp" "separate ?m ?out" "separate ?tmp ?out"
    by (simp_all add: separate_def footprint_def)
  have dt: "width ?tmp = width ?m" "height ?tmp = height ?m" "depth ?tmp = depth ?m"
    by simp_all
  have dout: "width ?out = height ?m" "height ?out = width ?m" "depth ?out = depth ?m"
    by simp_all
  have v: "(0 :: size_t) < height ?out \<and> (0 :: size_t) < width ?out \<and> (0 :: size_t) < depth ?out"
    by simp
  have rot: "Get 1 ?out (Rotate 1 ?m ?out ?mem) 0 0 0 = [11]"
    by code_simp
  from Rotate_is_Transpose_of_FlipHorizontal [OF al sz0 dv sep dt dout, of ?mem,
      THEN spec, THEN spec, THEN spec, THEN mp, OF v] rot al
  show ?thesis by simp
qed
section \<open>C6: pitch and dimensions are fixed at construction\<close>




section \<open>C7: \<open>FillWithVector\<close>\<close>

text \<open>
  C7, as amended. For an allocated array with the launch configuration of its constructor,
  and \<open>width\<close> and \<open>height\<close> at most \<open>2^32\<close>, the range of the 32-bit thread indices: after
  \<open>FillWithVector(values)\<close>, \<open>Get(row, col, slice)\<close> is \<open>values[slice]\<close> for every valid
  \<open>(row, col, slice)\<close>; a thread whose \<open>row\<close> is not below \<open>height\<close> or whose \<open>col\<close> is not
  below \<open>width\<close> writes nothing; and every byte that is not part of a valid element keeps its
  value.
\<close>

theorem FillWithVector_sets_every_pixel:
  assumes al: "allocated sz m" and cfg: "configured m"
    and b: "unat (width m) \<le> 2 ^ 32" "unat (height m) \<le> 2 ^ 32"
  shows "(\<forall>row col sl. row < height m \<and> col < width m \<and> sl < depth m \<longrightarrow>
            Get sz m (FillWithVector sz m hmem values mem) row col sl
              = load hmem (values + unat sl * sz) sz)
       \<and> (\<forall>vd t cur. \<not> (thread_row (blockSize m) t < height m \<and> thread_col (blockSize m) t < width m)
            \<longrightarrow> FillWithVectorKernel sz vd m (blockSize m) t cur = cur)
       \<and> (\<forall>p. (\<forall>row col sl. row < height m \<and> col < width m \<and> sl < depth m \<longrightarrow>
                  p < elem_addr sz m row col sl \<or> elem_addr sz m row col sl + sz \<le> p)
            \<longrightarrow> FillWithVector sz m hmem values mem p = mem p)"
proof (intro conjI allI impI)
  fix row col sl
  assume v: "row < height m \<and> col < width m \<and> sl < depth m"
  let ?vd = "load hmem values (unat (depth m * of_nat sz))"
  let ?dst = "\<lambda>x. case x of (t, k) \<Rightarrow> elem_addr sz m (thread_row (blockSize m) t)
                                     (thread_col (blockSize m) t) (of_nat k)"
  let ?val = "\<lambda>x :: thread \<times> nat. case x of (t, k) \<Rightarrow> values_at sz ?vd k"
  let ?ts = "List.product (filter (\<lambda>t. thread_row (blockSize m) t < height m
                                 \<and> thread_col (blockSize m) t < width m)
                        (launch (gridSize m) (blockSize m))) [0..<unat (depth m)]"
  have pos: "0 < unat (width m)" "0 < unat (height m)"
    using v by (auto simp: word_less_nat_alt)
  have len: "unat (depth m * of_nat sz) = unat (depth m) * sz"
    by (rule allocated_depth_bytes [OF al pos])
  have vals: "values_at sz ?vd k = load hmem (values + k * sz) sz" if "k < unat (depth m)" for k
  proof -
    have "k + 1 \<le> unat (depth m)" using that by simp
    then have "(k + 1) * sz \<le> unat (depth m) * sz" by (rule mult_le_mono1)
    then show ?thesis unfolding len by (rule values_at_load)
  qed
  from thread_cover [OF cfg b] v obtain t0 where
    t0: "t0 \<in> set (launch (gridSize m) (blockSize m))"
      "thread_row (blockSize m) t0 = row" "thread_col (blockSize m) t0 = col" by blast
  have k0: "unat sl < unat (depth m)" using v by (simp add: word_less_nat_alt)
  let ?x0 = "(t0, unat sl)"
  have in0: "?x0 \<in> set ?ts" using t0 v k0 by simp
  have d0: "?dst ?x0 = elem_addr sz m row col sl" using t0 by simp
  have v0: "?val ?x0 = load hmem (values + unat sl * sz) sz" using vals [OF k0] by simp
  have l0: "length (?val ?x0) = sz" unfolding v0 by (rule length_load)
  have sep: "(?dst x = ?dst ?x0 \<and> ?val x = ?val ?x0)
           \<or> ?dst x + length (?val x) \<le> ?dst ?x0 \<or> ?dst ?x0 + length (?val ?x0) \<le> ?dst x"
    if "x \<in> set ?ts" for x
  proof -
    obtain t k where x: "x = (t, k)" by (cases x)
    from that x have tv: "thread_row (blockSize m) t < height m" "thread_col (blockSize m) t < width m"
      and k: "k < unat (depth m)" by simp_all
    have ks: "(of_nat k :: size_t) < depth m" "unat (of_nat k :: size_t) = k"
      using of_nat_less_depth [OF k] by simp_all
    have lx: "length (?val x) = sz" using vals [OF k] x by (simp add: length_load)
    show ?thesis
    proof (cases "(thread_row (blockSize m) t, thread_col (blockSize m) t, (of_nat k :: size_t)) = (row, col, sl)")
      case True
      then have "k = unat sl" using ks(2) by auto
      then show ?thesis using True x t0 by simp
    next
      case False
      from elem_disjoint [OF al _ _ _ tv ks(1) False] v
      show ?thesis unfolding lx l0 d0 using x by simp
    qed
  qed
  have "load (fold (\<lambda>x mem. store mem (?dst x) (?val x)) ?ts mem) (?dst ?x0) sz = ?val ?x0"
    using in0 l0 sep by (rule fold_store_load)
  then show "Get sz m (FillWithVector sz m hmem values mem) row col sl
              = load hmem (values + unat sl * sz) sz"
    unfolding Get_def FillWithVector_fold d0 v0 .
next
  fix vd t cur
  assume "\<not> (thread_row (blockSize m) t < height m \<and> thread_col (blockSize m) t < width m)"
  then show "FillWithVectorKernel sz vd m (blockSize m) t cur = cur"
    by (auto simp: FillWithVectorKernel_def Let_def)
next
  fix p
  assume out: "\<forall>row col sl. row < height m \<and> col < width m \<and> sl < depth m \<longrightarrow>
                  p < elem_addr sz m row col sl \<or> elem_addr sz m row col sl + sz \<le> p"
  let ?vd = "load hmem values (unat (depth m * of_nat sz))"
  let ?dst = "\<lambda>x. case x of (t, k) \<Rightarrow> elem_addr sz m (thread_row (blockSize m) t)
                                     (thread_col (blockSize m) t) (of_nat k)"
  let ?val = "\<lambda>x :: thread \<times> nat. case x of (t, k) \<Rightarrow> values_at sz ?vd k"
  let ?ts = "List.product (filter (\<lambda>t. thread_row (blockSize m) t < height m
                                 \<and> thread_col (blockSize m) t < width m)
                        (launch (gridSize m) (blockSize m))) [0..<unat (depth m)]"
  have "p < ?dst x \<or> ?dst x + length (?val x) \<le> p" if "x \<in> set ?ts" for x
  proof -
    obtain t k where x: "x = (t, k)" by (cases x)
    from that x have tv: "thread_row (blockSize m) t < height m" "thread_col (blockSize m) t < width m"
      and k: "k < unat (depth m)" by simp_all
    have "length (?val x) \<le> sz" using x by (simp add: values_at_def)
    moreover have "p < ?dst x \<or> ?dst x + sz \<le> p"
      using out tv of_nat_less_depth(1) [OF k] x by simp
    ultimately show ?thesis by linarith
  qed
  then have "fold (\<lambda>x mem. store mem (?dst x) (?val x)) ?ts mem p = mem p"
    by (rule fold_store_outside)
  then show "FillWithVector sz m hmem values mem p = mem p"
    unfolding FillWithVector_fold .
qed

theorem FillWithVector_sets_every_pixel_witness:
  "allocated 1 \<lparr> array_ptr = 0, pitch = 4, width = 2, height = 1, depth = 2,
        blockSize = \<lparr> dim_x = 32, dim_y = 16, dim_z = 1 \<rparr>,
        gridSize = \<lparr> dim_x = 1, dim_y = 1, dim_z = 1 \<rparr> \<rparr>
   \<and> configured \<lparr> array_ptr = 0, pitch = 4, width = 2, height = 1, depth = 2,
        blockSize = \<lparr> dim_x = 32, dim_y = 16, dim_z = 1 \<rparr>,
        gridSize = \<lparr> dim_x = 1, dim_y = 1, dim_z = 1 \<rparr> \<rparr>
   \<and> Get 1 \<lparr> array_ptr = 0, pitch = 4, width = 2, height = 1, depth = 2,
        blockSize = \<lparr> dim_x = 32, dim_y = 16, dim_z = 1 \<rparr>,
        gridSize = \<lparr> dim_x = 1, dim_y = 1, dim_z = 1 \<rparr> \<rparr>
       (FillWithVector 1 \<lparr> array_ptr = 0, pitch = 4, width = 2, height = 1, depth = 2,
        blockSize = \<lparr> dim_x = 32, dim_y = 16, dim_z = 1 \<rparr>,
        gridSize = \<lparr> dim_x = 1, dim_y = 1, dim_z = 1 \<rparr> \<rparr>
          (store vector_store 0 [5, 9]) 0 vector_store) 0 1 1 = [9]
   \<and> FillWithVectorKernel 1 [5, 9] \<lparr> array_ptr = 0, pitch = 4, width = 2, height = 1, depth = 2,
        blockSize = \<lparr> dim_x = 32, dim_y = 16, dim_z = 1 \<rparr>,
        gridSize = \<lparr> dim_x = 1, dim_y = 1, dim_z = 1 \<rparr> \<rparr>
       \<lparr> dim_x = 32, dim_y = 16, dim_z = 1 \<rparr> (0, 0, 0, 2) vector_store = vector_store
   \<and> FillWithVector 1 \<lparr> array_ptr = 0, pitch = 4, width = 2, height = 1, depth = 2,
        blockSize = \<lparr> dim_x = 32, dim_y = 16, dim_z = 1 \<rparr>,
        gridSize = \<lparr> dim_x = 1, dim_y = 1, dim_z = 1 \<rparr> \<rparr>
          (store vector_store 0 [5, 9]) 0 vector_store 2 = 0"
proof -
  let ?m = "\<lparr> array_ptr = 0, pitch = 4, width = 2, height = 1, depth = 2,
        blockSize = \<lparr> dim_x = 32, dim_y = 16, dim_z = 1 \<rparr>,
        gridSize = \<lparr> dim_x = 1, dim_y = 1, dim_z = 1 \<rparr> \<rparr>"
  have al: "allocated 1 ?m" by (simp add: allocated_def)
  have cfg: "configured ?m"
    by (simp add: configured_def ComputeCudaConfig_def kBlockDimX_def kBlockDimY_def)
  have b: "unat (width ?m) \<le> 2 ^ 32" "unat (height ?m) \<le> 2 ^ 32" by simp_all
  note main = FillWithVector_sets_every_pixel [OF al cfg b, of "store vector_store 0 [5, 9]" 0 vector_store]
  have v: "(0 :: size_t) < height ?m \<and> (1 :: size_t) < width ?m \<and> (1 :: size_t) < depth ?m"
    by simp
  have l: "load (store vector_store 0 [5, 9]) (0 + unat (1 :: size_t) * 1) 1 = [9]"
    by (simp add: load_def store_def)
  have 1: "Get 1 ?m (FillWithVector 1 ?m (store vector_store 0 [5, 9]) 0 vector_store) 0 1 1 = [9]"
    using main [THEN conjunct1, rule_format, OF v] l by simp
  have t: "\<not> (thread_row (blockSize ?m) (0, 0, 0, 2) < height ?m
              \<and> thread_col (blockSize ?m) (0, 0, 0, 2) < width ?m)"
    by (simp add: thread_row_def thread_col_def)
  have 2: "FillWithVectorKernel 1 [5, 9] ?m \<lparr> dim_x = 32, dim_y = 16, dim_z = 1 \<rparr> (0, 0, 0, 2)
             vector_store = vector_store"
    using main [THEN conjunct2, THEN conjunct1, rule_format, OF t, of "[5, 9]" vector_store] by simp
  have out: "\<forall>row col sl. row < height ?m \<and> col < width ?m \<and> sl < depth ?m \<longrightarrow>
                  2 < elem_addr 1 ?m row col sl \<or> elem_addr 1 ?m row col sl + 1 \<le> 2"
  proof (intro allI impI)
    fix row col sl :: size_t
    assume h: "row < height ?m \<and> col < width ?m \<and> sl < depth ?m"
    then have u: "unat row < 1" "unat col < 2" "unat sl < 2"
      by (simp_all add: word_less_nat_alt)
    from h have "row < height ?m" "sl < depth ?m" by simp_all
    from elem_addr_nat [OF al this, of col]
    have "elem_addr 1 ?m row col sl = 4 * unat sl + unat col"
      using u by simp
    then show "2 < elem_addr 1 ?m row col sl \<or> elem_addr 1 ?m row col sl + 1 \<le> 2"
      using u by (cases "unat sl = 0") simp_all
  qed
  have 3: "FillWithVector 1 ?m (store vector_store 0 [5, 9]) 0 vector_store 2 = 0"
    using main [THEN conjunct2, THEN conjunct2, THEN spec, THEN mp, OF out] by (simp add: vector_store_def)
  from al cfg 1 2 3 show ?thesis by simp
qed

text \<open>
  C7 as stated fails for a \<open>(2^32 + 1) \<times> 1 \<times> 1\<close> array of one-byte elements: the grid has
  \<open>2^27 + 1\<close> blocks in \<open>x\<close>, and in the last block \<open>blockIdx.x * blockDim.x\<close> wraps to 0
  in \<open>unsigned int\<close>, so no thread has column \<open>2^32\<close>. With \<open>values[0] = 7\<close> and zeroed
  device memory, the element at column \<open>2^32\<close> is still 0 after the fill.
\<close>

theorem FillWithVector_counterexample:
  "allocated 1 \<lparr> array_ptr = 0, pitch = 4294967297, width = 4294967297, height = 1, depth = 1,
        blockSize = \<lparr> dim_x = 32, dim_y = 16, dim_z = 1 \<rparr>,
        gridSize = \<lparr> dim_x = 134217729, dim_y = 1, dim_z = 1 \<rparr> \<rparr>
   \<and> configured \<lparr> array_ptr = 0, pitch = 4294967297, width = 4294967297, height = 1, depth = 1,
        blockSize = \<lparr> dim_x = 32, dim_y = 16, dim_z = 1 \<rparr>,
        gridSize = \<lparr> dim_x = 134217729, dim_y = 1, dim_z = 1 \<rparr> \<rparr>
   \<and> Get 1 \<lparr> array_ptr = 0, pitch = 4294967297, width = 4294967297, height = 1, depth = 1,
        blockSize = \<lparr> dim_x = 32, dim_y = 16, dim_z = 1 \<rparr>,
        gridSize = \<lparr> dim_x = 134217729, dim_y = 1, dim_z = 1 \<rparr> \<rparr>
       (FillWithVector 1 \<lparr> array_ptr = 0, pitch = 4294967297, width = 4294967297, height = 1, depth = 1,
        blockSize = \<lparr> dim_x = 32, dim_y = 16, dim_z = 1 \<rparr>,
        gridSize = \<lparr> dim_x = 134217729, dim_y = 1, dim_z = 1 \<rparr> \<rparr>
          (store vector_store 0 [7]) 0 vector_store) 0 4294967296 0 = [0]
   \<and> load (store vector_store 0 [7]) (0 + unat (0 :: size_t) * 1) 1 = [7]"
proof -
  let ?m = "\<lparr> array_ptr = 0, pitch = 4294967297, width = 4294967297, height = 1, depth = 1,
        blockSize = \<lparr> dim_x = 32, dim_y = 16, dim_z = 1 \<rparr>,
        gridSize = \<lparr> dim_x = 134217729, dim_y = 1, dim_z = 1 \<rparr> \<rparr>"
  let ?hmem = "store vector_store 0 [7]"
  have al: "allocated 1 ?m" by (simp add: allocated_def)
  have gx: "unat (ucast (((4294967297 :: size_t) - 1) div kBlockDimX + 1) :: uint)
        = ((unat (4294967297 :: size_t) + 31) div 32) mod 2 ^ 32"
    by (rule grid_extent_x)
  have gy: "unat (ucast (((1 :: size_t) - 1) div kBlockDimY + 1) :: uint)
        = ((unat (1 :: size_t) + 15) div 16) mod 2 ^ 32"
    by (rule grid_extent_y)
  have "(ucast (((4294967297 :: size_t) - 1) div kBlockDimX + 1) :: uint) = 134217729"
    using gx by (simp add: word_unat_eq_iff)
  moreover have "(ucast (((1 :: size_t) - 1) div kBlockDimY + 1) :: uint) = 1"
    using gy by (simp add: word_unat_eq_iff)
  ultimately have cfg: "configured ?m"
    by (simp add: configured_def ComputeCudaConfig_def) (simp add: kBlockDimX_def kBlockDimY_def)
  let ?vd = "load ?hmem 0 (unat (depth ?m * of_nat 1))"
  let ?dst = "\<lambda>x. case x of (t, k) \<Rightarrow> elem_addr 1 ?m (thread_row (blockSize ?m) t)
                                     (thread_col (blockSize ?m) t) (of_nat k)"
  let ?val = "\<lambda>x :: thread \<times> nat. case x of (t, k) \<Rightarrow> values_at 1 ?vd k"
  let ?ts = "List.product (filter (\<lambda>t. thread_row (blockSize ?m) t < height ?m
                                 \<and> thread_col (blockSize ?m) t < width ?m)
                        (launch (gridSize ?m) (blockSize ?m))) [0..<unat (depth ?m)]"
  have out: "4294967296 < ?dst x \<or> ?dst x + length (?val x) \<le> 4294967296" if "x \<in> set ?ts" for x
  proof -
    obtain t k where x: "x = (t, k)" by (cases x)
    from that x have r: "thread_row (blockSize ?m) t < 1" and k: "k = 0" by simp_all
    have v: "thread_row (blockSize ?m) t < height ?m" "(of_nat k :: size_t) < depth ?m"
      using r k by simp_all
    have "unat (thread_row (blockSize ?m) t) = 0" using r by (simp add: word_less_nat_alt)
    then have "?dst x = unat (thread_col (blockSize ?m) t)"
      using elem_addr_nat [OF al v, of "thread_col (blockSize ?m) t"] x k by simp
    moreover have "unat (thread_col (blockSize ?m) t) < 2 ^ 32" by (rule thread_col_bound)
    moreover have "length (?val x) \<le> 1" using x by (simp add: values_at_def)
    ultimately show ?thesis by simp
  qed
  have "fold (\<lambda>x mem. store mem (?dst x) (?val x)) ?ts vector_store 4294967296
        = vector_store 4294967296"
    using out by (rule fold_store_outside)
  then have f: "FillWithVector 1 ?m ?hmem 0 vector_store 4294967296 = 0"
    unfolding FillWithVector_fold by (simp add: vector_store_def)
  have a: "elem_addr 1 ?m 0 4294967296 0 = 4294967296"
    using elem_addr_nat [OF al, of 0 0 4294967296] by simp
  have g: "Get 1 ?m (FillWithVector 1 ?m ?hmem 0 vector_store) 0 4294967296 0 = [0]"
    using f a by (simp add: Get_def load_def)
  have l: "load ?hmem (0 + unat (0 :: size_t) * 1) 1 = [7]"
    by (simp add: load_def store_def)
  from al cfg g l show ?thesis by blast
qed

section \<open>The generator states of \<open>FillWithRandomNumbers\<close>\<close>

text \<open>
  Let the array and the buffer of generator states be allocated and not alias, the state
  buffer at least as wide and high as the array, \<open>width\<close> and \<open>height\<close> at most \<open>2^32\<close>, and
  let the generator return a state of \<open>sizeof(curandState)\<close> bytes. Then for every pixel
  \<open>(row, col)\<close> of the array: the state of the pixel after \<open>FillWithRandomNumbers\<close> is the
  state before it, advanced once per depth channel, and channel \<open>k\<close> of the pixel is the
  scaled \<open>k\<close>-th draw from that state. The state a second call starts from is the state the
  first call left. (What the draws are, and the range of the scaled values, is up to
  \<open>curand_uniform\<close> and the floating-point arithmetic of the scaling, parameters here.)
\<close>

theorem FillWithRandomNumbers_state:
  fixes curand_uniform :: "elem \<Rightarrow> 'u \<times> elem"
  assumes al: "allocated sz m" and alr: "allocated ssz random_state"
    and sep: "separate m random_state"
    and dr: "width m \<le> width random_state" "height m \<le> height random_state"
            "0 < depth random_state"
    and cfg: "configured m"
    and b: "unat (width m) \<le> 2 ^ 32" "unat (height m) \<le> 2 ^ 32"
    and lenV: "\<And>u. length (scale u) = sz"
    and lenS: "\<And>s. length s = ssz \<Longrightarrow> length (snd (curand_uniform s)) = ssz"
    and v: "row < height m" "col < width m"
  shows "Get ssz random_state
           (FillWithRandomNumbers curand_uniform scale sz ssz m random_state mem) row col 0
         = ((\<lambda>s. snd (curand_uniform s)) ^^ unat (depth m)) (Get ssz random_state mem row col 0)
       \<and> (\<forall>k < unat (depth m).
            Get sz m (FillWithRandomNumbers curand_uniform scale sz ssz m random_state mem)
              row col (of_nat k)
            = scale (fst (curand_uniform (((\<lambda>s. snd (curand_uniform s)) ^^ k)
                                           (Get ssz random_state mem row col 0)))))"
proof -
  let ?K = "FillWithRandomNumbersKernel curand_uniform scale sz ssz m random_state (blockSize m)"
  let ?ts = "launch (gridSize m) (blockSize m)"
  let ?PB = "pixel_bytes sz ssz m random_state row col"
  from thread_cover [OF cfg b v] obtain t0 where t0: "t0 \<in> set ?ts"
    and rc: "thread_row (blockSize m) t0 = row" "thread_col (blockSize m) t0 = col" by blast
  from split_list [OF t0] obtain pre post where sp: "?ts = pre @ t0 # post" by blast
  have "distinct ?ts" by (rule distinct_launch)
  then have notin: "t0 \<notin> set pre" "t0 \<notin> set post" unfolding sp by simp_all
  have other: "?K t cur p = cur p" if t: "t \<in> set pre \<union> set post" and p: "p \<in> ?PB" for t cur p
  proof (cases "thread_row (blockSize m) t < height m \<and> thread_col (blockSize m) t < width m")
    case False
    then show ?thesis by (simp add: kernel_skip)
  next
    case True
    from t have tin: "t \<in> set ?ts" and ne: "t \<noteq> t0" using notin unfolding sp by auto
    have "(thread_row (blockSize m) t, thread_col (blockSize m) t) \<noteq> (row, col)"
      using thread_pixel_inj [OF cfg b tin t0] ne rc by auto
    from pixel_disjoint [OF al alr sep dr _ _ v this p] True
    have np: "p \<notin> pixel_bytes sz ssz m random_state (thread_row (blockSize m) t) (thread_col (blockSize m) t)"
      by simp
    show ?thesis
      by (rule kernel_frame [where g = curand_uniform and scale = scale, OF lenV lenS np])
  qed
  let ?mem1 = "fold ?K pre mem"
  let ?mem2 = "?K t0 ?mem1"
  let ?res = "fold ?K post ?mem2"
  have res: "FillWithRandomNumbers curand_uniform scale sz ssz m random_state mem = ?res"
    by (simp add: FillWithRandomNumbers_def sp)
  have pre: "?mem1 p = mem p" if "p \<in> ?PB" for p
    by (rule fold_frame) (use other that in simp)
  have post: "?res p = ?mem2 p" if "p \<in> ?PB" for p
    by (rule fold_frame) (use other that in simp)
  have s1: "Get ssz random_state ?mem1 row col 0 = Get ssz random_state mem row col 0"
    unfolding Get_def by (rule load_cong) (simp add: pre state_in_pixel)
  have v0: "thread_row (blockSize m) t0 < height m" "thread_col (blockSize m) t0 < width m"
    using v rc by simp_all
  note kr = kernel_result [where g = curand_uniform and scale = scale and mem = ?mem1,
      OF al alr sep dr lenV lenS v0, unfolded rc s1]
  have "Get ssz random_state ?res row col 0 = Get ssz random_state ?mem2 row col 0"
    unfolding Get_def by (rule load_cong) (simp add: post state_in_pixel)
  then have 1: "Get ssz random_state ?res row col 0
      = ((\<lambda>s. snd (curand_uniform s)) ^^ unat (depth m)) (Get ssz random_state mem row col 0)"
    using kr by simp
  have 2: "Get sz m ?res row col (of_nat k)
            = scale (fst (curand_uniform (((\<lambda>s. snd (curand_uniform s)) ^^ k)
                                           (Get ssz random_state mem row col 0))))"
    if k: "k < unat (depth m)" for k
  proof -
    have "Get sz m ?res row col (of_nat k) = Get sz m ?mem2 row col (of_nat k)"
      unfolding Get_def by (rule load_cong) (simp add: post value_in_pixel [OF k])
    then show ?thesis using kr k by simp
  qed
  from 1 2 show ?thesis unfolding res by blast
qed

theorem FillWithRandomNumbers_state_witness:
  "allocated 1 \<lparr> array_ptr = 0, pitch = 1, width = 1, height = 1, depth = 2,
        blockSize = \<lparr> dim_x = 32, dim_y = 16, dim_z = 1 \<rparr>,
        gridSize = \<lparr> dim_x = 1, dim_y = 1, dim_z = 1 \<rparr> \<rparr>
   \<and> allocated 1 \<lparr> array_ptr = 100, pitch = 1, width = 1, height = 1, depth = 1,
        blockSize = \<lparr> dim_x = 32, dim_y = 16, dim_z = 1 \<rparr>,
        gridSize = \<lparr> dim_x = 1, dim_y = 1, dim_z = 1 \<rparr> \<rparr>
   \<and> Get 1 \<lparr> array_ptr = 100, pitch = 1, width = 1, height = 1, depth = 1,
        blockSize = \<lparr> dim_x = 32, dim_y = 16, dim_z = 1 \<rparr>,
        gridSize = \<lparr> dim_x = 1, dim_y = 1, dim_z = 1 \<rparr> \<rparr>
       (FillWithRandomNumbers (\<lambda>s. (hd s, map (\<lambda>b. b + 1) s)) (\<lambda>u. [u]) 1 1
          \<lparr> array_ptr = 0, pitch = 1, width = 1, height = 1, depth = 2,
        blockSize = \<lparr> dim_x = 32, dim_y = 16, dim_z = 1 \<rparr>,
        gridSize = \<lparr> dim_x = 1, dim_y = 1, dim_z = 1 \<rparr> \<rparr>
          \<lparr> array_ptr = 100, pitch = 1, width = 1, height = 1, depth = 1,
        blockSize = \<lparr> dim_x = 32, dim_y = 16, dim_z = 1 \<rparr>,
        gridSize = \<lparr> dim_x = 1, dim_y = 1, dim_z = 1 \<rparr> \<rparr>
          (store vector_store 100 [5])) 0 0 0 = [7]
   \<and> Get 1 \<lparr> array_ptr = 0, pitch = 1, width = 1, height = 1, depth = 2,
        blockSize = \<lparr> dim_x = 32, dim_y = 16, dim_z = 1 \<rparr>,
        gridSize = \<lparr> dim_x = 1, dim_y = 1, dim_z = 1 \<rparr> \<rparr>
       (FillWithRandomNumbers (\<lambda>s. (hd s, map (\<lambda>b. b + 1) s)) (\<lambda>u. [u]) 1 1
          \<lparr> array_ptr = 0, pitch = 1, width = 1, height = 1, depth = 2,
        blockSize = \<lparr> dim_x = 32, dim_y = 16, dim_z = 1 \<rparr>,
        gridSize = \<lparr> dim_x = 1, dim_y = 1, dim_z = 1 \<rparr> \<rparr>
          \<lparr> array_ptr = 100, pitch = 1, width = 1, height = 1, depth = 1,
        blockSize = \<lparr> dim_x = 32, dim_y = 16, dim_z = 1 \<rparr>,
        gridSize = \<lparr> dim_x = 1, dim_y = 1, dim_z = 1 \<rparr> \<rparr>
          (store vector_store 100 [5])) 0 0 1 = [6]"
proof -
  let ?m = "\<lparr> array_ptr = 0, pitch = 1, width = 1, height = 1, depth = 2,
        blockSize = \<lparr> dim_x = 32, dim_y = 16, dim_z = 1 \<rparr>,
        gridSize = \<lparr> dim_x = 1, dim_y = 1, dim_z = 1 \<rparr> \<rparr>"
  let ?rs = "\<lparr> array_ptr = 100, pitch = 1, width = 1, height = 1, depth = 1,
        blockSize = \<lparr> dim_x = 32, dim_y = 16, dim_z = 1 \<rparr>,
        gridSize = \<lparr> dim_x = 1, dim_y = 1, dim_z = 1 \<rparr> \<rparr>"
  let ?g = "\<lambda>s :: elem. (hd s, map (\<lambda>b. b + 1) s)"
  let ?scale = "\<lambda>u :: byte. [u]"
  let ?mem = "store vector_store 100 [5]"
  have al: "allocated 1 ?m" "allocated 1 ?rs" by (simp_all add: allocated_def)
  have sep: "separate ?m ?rs" by (simp add: separate_def footprint_def)
  have dr: "width ?m \<le> width ?rs" "height ?m \<le> height ?rs" "0 < depth ?rs" by simp_all
  have cfg: "configured ?m"
    by (simp add: configured_def ComputeCudaConfig_def kBlockDimX_def kBlockDimY_def)
  have b: "unat (width ?m) \<le> 2 ^ 32" "unat (height ?m) \<le> 2 ^ 32" by simp_all
  have lenS: "\<And>s. length s = 1 \<Longrightarrow> length (snd (?g s)) = 1" by simp
  have v: "(0 :: size_t) < height ?m" "(0 :: size_t) < width ?m" by simp_all
  have s0: "Get 1 ?rs ?mem 0 0 0 = [5]"
    by (simp add: Get_def elem_addr_def load_def store_def)
  have d: "unat (depth ?m) = Suc (Suc 0)" by simp
  have one: "(1 :: nat) < unat (depth ?m)" by simp
  have main: "Get 1 ?rs (FillWithRandomNumbers ?g ?scale 1 1 ?m ?rs ?mem) 0 0 0
         = ((\<lambda>s. snd (?g s)) ^^ unat (depth ?m)) (Get 1 ?rs ?mem 0 0 0)
       \<and> (\<forall>k < unat (depth ?m).
            Get 1 ?m (FillWithRandomNumbers ?g ?scale 1 1 ?m ?rs ?mem) 0 0 (of_nat k)
            = ?scale (fst (?g (((\<lambda>s. snd (?g s)) ^^ k) (Get 1 ?rs ?mem 0 0 0)))))"
    by (rule FillWithRandomNumbers_state [where curand_uniform = ?g and scale = ?scale,
          OF al sep dr cfg b _ lenS v]) simp
  from main have 1: "Get 1 ?rs (FillWithRandomNumbers ?g ?scale 1 1 ?m ?rs ?mem) 0 0 0 = [7]"
    unfolding s0 d by simp
  from main [THEN conjunct2, THEN spec, THEN mp, OF one]
  have 2: "Get 1 ?m (FillWithRandomNumbers ?g ?scale 1 1 ?m ?rs ?mem) 0 0 1 = [6]"
    unfolding s0 by simp
  from al 1 2 show ?thesis by blast
qed

section \<open>C9: the launch grid of \<open>ComputeCudaConfig\<close>\<close>

text \<open>
  C9, as amended. The block is \<open>32 \<times> 16 \<times> 1\<close>. The grid has
  \<open>ceil(width / 32) mod 2^32\<close> blocks in \<open>x\<close> and \<open>ceil(height / 16) mod 2^32\<close> blocks in
  \<open>y\<close>: the \<open>size_t\<close> value \<open>(width_ - 1) / kBlockDimX + 1\<close> is stored in a 32-bit field of
  \<open>dim3\<close>. For a width of zero the \<open>size_t\<close> value is \<open>2^59\<close> and the field is 0, which is
  \<open>ceil(0 / 32)\<close>; the number of blocks is \<open>ceil(width / 32)\<close> exactly as long as that is
  below \<open>2^32\<close>.
\<close>

theorem ComputeCudaConfig_grid:
  "unat (dim_x (gridSize (ComputeCudaConfig m))) = ((unat (width m) + 31) div 32) mod 2 ^ 32
 \<and> unat (dim_y (gridSize (ComputeCudaConfig m))) = ((unat (height m) + 15) div 16) mod 2 ^ 32
 \<and> dim_z (gridSize (ComputeCudaConfig m)) = 1
 \<and> blockSize (ComputeCudaConfig m) = \<lparr> dim_x = 32, dim_y = 16, dim_z = 1 \<rparr>"
proof -
  have "blockSize (ComputeCudaConfig m) = \<lparr> dim_x = 32, dim_y = 16, dim_z = 1 \<rparr>"
    by (simp add: ComputeCudaConfig_def kBlockDimX_def kBlockDimY_def)
  moreover have "dim_x (gridSize (ComputeCudaConfig m)) = ucast ((width m - 1) div kBlockDimX + 1)"
    "dim_y (gridSize (ComputeCudaConfig m)) = ucast ((height m - 1) div kBlockDimY + 1)"
    "dim_z (gridSize (ComputeCudaConfig m)) = 1"
    by (simp_all add: ComputeCudaConfig_def)
  ultimately show ?thesis by (simp only: grid_extent_x grid_extent_y)
qed

text \<open>
  C9 as stated fails for a width of \<open>2^37 + 1\<close>: \<open>ceil(width / 32)\<close> is \<open>2^32 + 1\<close>, the
  grid has one block in \<open>x\<close>.
\<close>

theorem ComputeCudaConfig_grid_counterexample:
  "unat (dim_x (gridSize (ComputeCudaConfig
      \<lparr> array_ptr = 0, pitch = 137438953473, width = 137438953473, height = 1, depth = 1,
        blockSize = \<lparr> dim_x = 1, dim_y = 1, dim_z = 1 \<rparr>,
        gridSize = \<lparr> dim_x = 1, dim_y = 1, dim_z = 1 \<rparr> \<rparr>))) = 1
   \<and> (unat (137438953473 :: size_t) + 31) div 32 = 4294967297"
proof -
  have "unat (ucast (((137438953473 :: size_t) - 1) div kBlockDimX + 1) :: uint)
        = ((unat (137438953473 :: size_t) + 31) div 32) mod 2 ^ 32"
    by (rule grid_extent_x)
  also have "\<dots> = 1" by simp
  finally show ?thesis by (simp add: ComputeCudaConfig_def)
qed

section \<open>C10: \<open>Write\<close> replaces the file\<close>

text \<open>
  C10. When \<open>Write(path)\<close> or \<open>Write(path, slice)\<close> returns, the file at \<open>path\<close> is
  exactly the ASCII header followed by the payload bytes just copied from the device,
  whatever the file system held at \<open>path\<close> before: the first stream is opened with
  \<open>std::ios_base::out\<close> alone, which truncates, and only the second one appends.
\<close>

theorem Write_truncates:
  "(Write sz m file_name fs mem = Inr fs1 \<longrightarrow>
      (\<exists>dest. CopyToHost sz m mem vector_store 0 (width m * of_nat sz) = Inr dest \<and>
         fs1 = fs(file_name \<mapsto>
                 header (unat (width m)) (unat (height m)) (unat (depth m)) @
                 load dest 0 (unat (of_nat sz * width m * height m * depth m)))))
 \<and> (Write_slice sz m file_name sl fs mem = Inr fs2 \<longrightarrow>
      (\<exists>dest. cudaMemcpy2D vector_store 0 (unat (width m * of_nat sz)) mem
                 (array_ptr m + unat (sl * height m * pitch m div of_nat sz) * sz) (unat (pitch m))
                 (unat (width m * of_nat sz)) (unat (height m)) = Inr dest \<and>
         fs2 = fs(file_name \<mapsto>
                 header (unat (width m)) (unat (height m)) 1 @
                 load dest 0 (unat (of_nat sz * width m * height m)))))"
  by (auto simp: Write_def Write_slice_def write_after_open_out Let_def
           split: sum.splits if_splits)


theorem Write_truncates_witness:
  "Write 1 \<lparr> array_ptr = 0, pitch = 4, width = 2, height = 1, depth = 2,
        blockSize = \<lparr> dim_x = 32, dim_y = 16, dim_z = 1 \<rparr>,
        gridSize = \<lparr> dim_x = 1, dim_y = 1, dim_z = 1 \<rparr> \<rparr> ''out'' (Map.empty(''out'' \<mapsto> [1, 2, 3])) (store vector_store 0 [10, 11, 0, 0, 12, 13])
     = Inr ((Map.empty(''out'' \<mapsto> [1, 2, 3]))(''out'' \<mapsto> [50, 38, 49, 38, 50, 38, 10, 11, 12, 13]))
   \<and> Write_slice 1 \<lparr> array_ptr = 0, pitch = 4, width = 2, height = 1, depth = 2,
        blockSize = \<lparr> dim_x = 32, dim_y = 16, dim_z = 1 \<rparr>,
        gridSize = \<lparr> dim_x = 1, dim_y = 1, dim_z = 1 \<rparr> \<rparr> ''out'' 1 (Map.empty(''out'' \<mapsto> [1, 2, 3])) (store vector_store 0 [10, 11, 0, 0, 12, 13])
     = Inr ((Map.empty(''out'' \<mapsto> [1, 2, 3]))(''out'' \<mapsto> [50, 38, 49, 38, 49, 38, 12, 13]))"
proof -
  let ?m = "\<lparr> array_ptr = 0, pitch = 4, width = 2, height = 1, depth = 2,
        blockSize = \<lparr> dim_x = 32, dim_y = 16, dim_z = 1 \<rparr>,
        gridSize = \<lparr> dim_x = 1, dim_y = 1, dim_z = 1 \<rparr> \<rparr>"
  let ?fs = "(Map.empty(''out'' \<mapsto> [1, 2, 3]))"
  let ?mem = "(store vector_store 0 [10, 11, 0, 0, 12, 13])"
  have l0: "load ?mem 0 2 = [10, 11]" "load ?mem 4 2 = [12, 13]"
    by (simp_all add: load_def store_def upt_rec)
  have c1: "CopyToHost 1 ?m ?mem vector_store 0 (width ?m * of_nat 1)
              = Inr (store (store vector_store 0 [10, 11]) 2 [12, 13])"
    by (simp add: CopyToHost_def cudaMemcpy2D_def upt_rec l0)
  have c2: "cudaMemcpy2D vector_store 0 (unat (width ?m * of_nat 1)) ?mem
                 (array_ptr ?m + unat (1 * height ?m * pitch ?m div of_nat 1) * 1) (unat (pitch ?m))
                 (unat (width ?m * of_nat 1)) (unat (height ?m))
              = Inr (store vector_store 0 [12, 13])"
    by (simp add: cudaMemcpy2D_def upt_rec l0)
  have w1: "Write 1 ?m ''out'' ?fs ?mem = Inr (write_bytes (open_app (write_bytes (open_out ?fs ''out'') ''out''
               (header 2 1 2)) ''out'') ''out'' (load (store (store vector_store 0 [10, 11]) 2 [12, 13]) 0 4))"
    unfolding Write_def c1 by (simp add: overrun_def)
  have w2: "Write_slice 1 ?m ''out'' 1 ?fs ?mem = Inr (write_bytes (open_app (write_bytes (open_out ?fs ''out'') ''out''
               (header 2 1 1)) ''out'') ''out'' (load (store vector_store 0 [12, 13]) 0 2))"
    unfolding Write_slice_def c2 by (simp add: overrun_def)
  have h: "header 2 (Suc 0) 2 = [50, 38, 49, 38, 50, 38]"
    "header 2 (Suc 0) (Suc 0) = [50, 38, 49, 38, 49, 38]"
    by (simp_all add: header_def ampersand_def dec_digits.simps)
  have l: "load (store (store vector_store 0 [10, 11]) 2 [12, 13]) 0 4 = [10, 11, 12, 13]"
    "load (store vector_store 0 [12, 13]) 0 2 = [12, 13]"
    by (simp_all add: load_def store_def upt_rec)
  from Write_truncates [of 1 ?m "''out''" ?fs ?mem _ 1 _, THEN conjunct1, THEN mp, OF w1]
  obtain dest where "CopyToHost 1 ?m ?mem vector_store 0 (width ?m * of_nat 1) = Inr dest"
    and "write_bytes (open_app (write_bytes (open_out ?fs ''out'') ''out''
               (header 2 1 2)) ''out'') ''out'' (load (store (store vector_store 0 [10, 11]) 2 [12, 13]) 0 4)
         = ?fs(''out'' \<mapsto> header (unat (width ?m)) (unat (height ?m)) (unat (depth ?m)) @
                 load dest 0 (unat (of_nat 1 * width ?m * height ?m * depth ?m)))"
    by blast
  then have r1: "write_bytes (open_app (write_bytes (open_out ?fs ''out'') ''out''
               (header 2 1 2)) ''out'') ''out'' (load (store (store vector_store 0 [10, 11]) 2 [12, 13]) 0 4)
         = ?fs(''out'' \<mapsto> [50, 38, 49, 38, 50, 38, 10, 11, 12, 13])"
    unfolding c1 by (auto simp: h l)
  from Write_truncates [of 1 ?m "''out''" ?fs ?mem _ 1 _, THEN conjunct2, THEN mp, OF w2]
  obtain dest2 where "cudaMemcpy2D vector_store 0 (unat (width ?m * of_nat 1)) ?mem
                 (array_ptr ?m + unat (1 * height ?m * pitch ?m div of_nat 1) * 1) (unat (pitch ?m))
                 (unat (width ?m * of_nat 1)) (unat (height ?m)) = Inr dest2"
    and "write_bytes (open_app (write_bytes (open_out ?fs ''out'') ''out''
               (header 2 1 1)) ''out'') ''out'' (load (store vector_store 0 [12, 13]) 0 2)
         = ?fs(''out'' \<mapsto> header (unat (width ?m)) (unat (height ?m)) 1 @
                 load dest2 0 (unat (of_nat 1 * width ?m * height ?m)))"
    by blast
  then have r2: "write_bytes (open_app (write_bytes (open_out ?fs ''out'') ''out''
               (header 2 1 1)) ''out'') ''out'' (load (store vector_store 0 [12, 13]) 0 2)
         = ?fs(''out'' \<mapsto> [50, 38, 49, 38, 49, 38, 12, 13])"
    unfolding c2 by (auto simp: h l)
  show ?thesis unfolding w1 w2 r1 r2 by simp
qed


end
